theory Spec2Isabelle
  imports Main
begin

section \<open>Data model of \<open>ResolutionRequest.js\<close>\<close>

text \<open>
  Modules are handed out by the module cache and are identified by the path they were
  created for: \<open>moduleCache.getModule(p)\<close> is \<open>Module p\<close>,
  \<open>moduleCache.getAssetModule(p)\<close> is \<open>AssetModule p\<close>; the deprecated asset map
  yields modules of a third class.
\<close>

datatype module = Module string | AssetModule string | AssetModule_DEPRECATED string

fun module_path :: "module \<Rightarrow> string" where
  "module_path (Module p) = p"
| "module_path (AssetModule p) = p"
| "module_path (AssetModule_DEPRECATED p) = p"

text \<open>
  The third argument of \<open>new UnableToResolveError(fromModule, toModule, message)\<close>. One
  constructor for each message of the source:
  \<^item> \<open>DirectoryDoesntExist d\<close>: \<^verbatim>\<open>Directory ${dirname} doesn't exist\<close> (\<open>_loadAsFile\<close>);
  \<^item> \<open>FileDoesntExist p\<close>: \<^verbatim>\<open>File ${potentialModulePath} doesnt exist\<close> (\<open>_loadAsFile\<close>);
  \<^item> \<open>NotInModuleMap d\<close>: \<^verbatim>\<open>Unable to find this module in its module map or any of the
    node_modules directories under ${potentialDirPath} and its parent directories ...\<close>
    (\<open>_loadAsDir\<close>);
  \<^item> \<open>NodeModuleNotFound\<close>: \<^verbatim>\<open>Node module not found\<close> (\<open>_resolveNodeDependency\<close>);
  \<^item> \<open>UnableToResolveDependency\<close>: \<^verbatim>\<open>Unable to resolve dependency\<close>
    (\<open>_resolveHasteDependency\<close>).
\<close>

datatype message =
    DirectoryDoesntExist string
  | FileDoesntExist string
  | NotInModuleMap string
  | NodeModuleNotFound
  | UnableToResolveDependency

text \<open>
  An error is either the source's own \<open>UnableToResolveError\<close> (the only one whose
  \<open>type\<close> is \<^verbatim>\<open>'UnableToResolveError'\<close>) or an error of a collaborator (I/O failure,
  malformed manifest) or of the language (the \<open>SyntaxError\<close> of \<open>new RegExp\<close>), which
  carries some other \<open>type\<close>.
\<close>

datatype error = UnableToResolveError module string message | OtherError string

fun isUnableToResolveError :: "error \<Rightarrow> bool" where
  "isUnableToResolveError (UnableToResolveError fromModule toModule msg) = True"
| "isUnableToResolveError (OtherError t) = False"

text \<open>
  A promise that settles is \<open>Some (Inr v)\<close> (fulfilled) or \<open>Some (Inl e)\<close> (rejected);
  \<open>None\<close> is a promise that never settles, because the computation behind it does not
  end.
\<close>

type_synonym 'a promise = "(error + 'a) option"

text \<open>What \<open>hasteMap.getModule(name, platform)\<close> finds: a module, or a package (given by
  the path of its manifest and its \<open>root\<close>).\<close>

datatype haste_dep = HasteModule module | HastePackage (manifest: string) (root: string)

fun dep_type :: "haste_dep \<Rightarrow> string" where
  "dep_type (HasteModule (Module p)) = ''Module''"
| "dep_type (HasteModule (AssetModule p)) = ''AssetModule''"
| "dep_type (HasteModule (AssetModule_DEPRECATED p)) = ''AssetModule_DEPRECATED''"
| "dep_type (HastePackage m r) = ''Package''"

subsection \<open>Collaborators\<close>

text \<open>
  The collaborators of the resolver are not part of \<open>ResolutionRequest.js\<close>; each is a
  parameter. \<open>pathlib\<close> collects the functions of the modules the file requires
  (\<open>fast-path\<close> as \<open>path\<close>, \<open>path\<close> as \<open>realPath\<close>, \<open>absolute-path\<close>,
  \<open>getAssetDataFromName\<close>); \<open>parse_root p\<close> is \<open>realPath.parse(p).root\<close>,
  \<open>path_posix_normalize\<close> is \<open>path.posix.normalize\<close> where \<open>path.posix\<close> exists, and
  \<open>getAssetDataFromName p\<close> gives the pair \<open>(name, type)\<close>. The constructor of regular
  expressions is with them: \<open>newRegExp s\<close> is \<open>new RegExp(s)\<close>, which is \<open>None\<close> when the
  constructor throws a \<open>SyntaxError\<close> (\<open>s\<close> is not a well-formed pattern) and else the
  regular expression, given by the strings in which it finds a match. The file index
  takes such a regular expression in \<open>matches(dir, pattern)\<close>.
\<close>

record pathlib =
  path_dirname :: "string \<Rightarrow> string"
  path_join :: "string list \<Rightarrow> string"
  path_relative :: "string \<Rightarrow> string \<Rightarrow> string"
  path_resolve :: "string \<Rightarrow> string"
  path_normalize :: "string \<Rightarrow> string"
  path_sep :: string
  path_posix_normalize :: "(string \<Rightarrow> string) option"
  path_basename :: "string \<Rightarrow> string \<Rightarrow> string"
  path_extname :: "string \<Rightarrow> string"
  parse_root :: "string \<Rightarrow> string"
  isAbsolutePath :: "string \<Rightarrow> bool"
  getAssetDataFromName :: "string \<Rightarrow> string \<times> string"
  newRegExp :: "string \<Rightarrow> (string \<Rightarrow> bool) option"

record fastfs =
  fileExists :: "string \<Rightarrow> bool"
  dirExists :: "string \<Rightarrow> bool"
  matches :: "string \<Rightarrow> (string \<Rightarrow> bool) \<Rightarrow> string list"
  matchFilesByPattern :: "string \<Rightarrow> string list"

record helpers =
  isNodeModulesDir :: "string \<Rightarrow> bool"
  isAssetFile :: "string \<Rightarrow> bool"

text \<open>
  The methods of the objects of the module cache. A package is named by the path of its
  manifest: \<open>module_getPackage m\<close> is \<open>m.getPackage()\<close> (\<open>None\<close> for \<open>null\<close>),
  \<open>package_getMain p\<close> is \<open>moduleCache.getPackage(p).getMain()\<close>,
  \<open>package_redirectRequire p name\<close> is \<open>p.redirectRequire(name)\<close>. The asynchronous
  ones may reject.
\<close>

record moduleCache =
  module_getPackage :: "module \<Rightarrow> string option"
  module_getDependencies :: "module \<Rightarrow> error + string list"
  module_getName :: "module \<Rightarrow> error + string"
  module_hash :: "module \<Rightarrow> string"
  package_getMain :: "string \<Rightarrow> error + string"
  package_redirectRequire :: "string \<Rightarrow> string \<Rightarrow> error + string"
  package_getName :: "string \<Rightarrow> error + string"

text \<open>The fields of a \<open>ResolutionRequest\<close> set by its constructor, and the libraries.\<close>

record request =
  platform :: "string option"
  preferNativePlatform :: bool
  entryPath :: string
  hasteMap :: "string \<Rightarrow> string option \<Rightarrow> haste_dep option"
  deprecatedAssetMap :: "module \<Rightarrow> string \<Rightarrow> module option"
  helpers :: helpers
  moduleCache :: moduleCache
  fastfs :: fastfs
  shouldThrowOnUnresolvedErrors :: "string \<Rightarrow> string option \<Rightarrow> bool"
  lib :: pathlib

section \<open>The file and directory loader\<close>

text \<open>
  \<open>_tryResolve(action, secondaryAction)\<close>: \<open>action()\<close> is called at once, so it is
  passed as its promise; \<open>secondaryAction\<close> is called only by the \<open>catch\<close> handler and
  stays a function.
\<close>

definition tryResolve :: "'a promise \<Rightarrow> (unit \<Rightarrow> 'a promise) \<Rightarrow> 'a promise" where
  "tryResolve action secondaryAction =
     (case action of
        None \<Rightarrow> None
      | Some (Inr v) \<Rightarrow> Some (Inr v)
      | Some (Inl error) \<Rightarrow>
          if \<not> isUnableToResolveError error then Some (Inl error)
          else secondaryAction ())"

text \<open>The backslash of the regular expressions.\<close>

definition backslash :: char where
  "backslash = CHR 0x5C"

text \<open>The pattern \<open>_loadAsFile\<close> builds for an asset: the string handed to
  \<open>new RegExp\<close>. The name, the platform and the type go into it as they are.\<close>

definition assetPattern :: "request \<Rightarrow> string \<Rightarrow> string \<Rightarrow> string" where
  "assetPattern R name type =
     (let pattern = ''^'' @ name @ ''(@['' @ [backslash] @ ''d'' @ [backslash] @ ''.]+x)?'';
          pattern = (case platform R of
                       Some pf \<Rightarrow> pattern @ ''('' @ [backslash] @ ''.'' @ pf @ '')?''
                     | None \<Rightarrow> pattern)
      in pattern @ [backslash] @ ''.'' @ type)"

text \<open>
  The second half of \<open>_loadAsFile\<close> (from \<open>let file;\<close>): the chain of
  \<open>fileExists\<close> probes.
\<close>

definition probeFile :: "request \<Rightarrow> string \<Rightarrow> module \<Rightarrow> string \<Rightarrow> module promise" where
  "probeFile R potentialModulePath fromModule toModule =
     (if fileExists (fastfs R) potentialModulePath
        then Some (Inr (Module potentialModulePath))
      else if platform R \<noteq> None \<and>
              fileExists (fastfs R) (potentialModulePath @ ''.'' @ the (platform R) @ ''.js'')
        then Some (Inr (Module (potentialModulePath @ ''.'' @ the (platform R) @ ''.js'')))
      else if preferNativePlatform R \<and>
              fileExists (fastfs R) (potentialModulePath @ ''.native.js'')
        then Some (Inr (Module (potentialModulePath @ ''.native.js'')))
      else if fileExists (fastfs R) (potentialModulePath @ ''.js'')
        then Some (Inr (Module (potentialModulePath @ ''.js'')))
      else if fileExists (fastfs R) (potentialModulePath @ ''.json'')
        then Some (Inr (Module (potentialModulePath @ ''.json'')))
      else Some (Inl (UnableToResolveError fromModule toModule
                        (FileDoesntExist potentialModulePath))))"

text \<open>
  \<open>_loadAsFile\<close>. The arguments of \<open>matches(dirname, new RegExp(pattern))\<close> are
  evaluated before the call, so a pattern that is not well formed rejects the promise
  with the \<open>SyntaxError\<close> of the constructor and the file index is not asked.
  \<open>const [assetFile] = matches(...)\<close> takes the first match, and \<open>if (assetFile)\<close> is
  false for no match and for the empty string.
\<close>

definition loadAsFile :: "request \<Rightarrow> string \<Rightarrow> module \<Rightarrow> string \<Rightarrow> module promise" where
  "loadAsFile R potentialModulePath fromModule toModule =
     (if isAssetFile (helpers R) potentialModulePath then
        (let dirname = path_dirname (lib R) potentialModulePath in
         if \<not> dirExists (fastfs R) dirname
           then Some (Inl (UnableToResolveError fromModule toModule
                             (DirectoryDoesntExist dirname)))
         else
           (let (name, type) = getAssetDataFromName (lib R) potentialModulePath
            in case newRegExp (lib R) (assetPattern R name type) of
                 None \<Rightarrow> Some (Inl (OtherError ''SyntaxError''))
               | Some pattern \<Rightarrow>
                   (case matches (fastfs R) dirname pattern of
                      assetFile # rest \<Rightarrow>
                        if assetFile \<noteq> [] then Some (Inr (AssetModule assetFile))
                        else probeFile R potentialModulePath fromModule toModule
                    | [] \<Rightarrow> probeFile R potentialModulePath fromModule toModule)))
      else probeFile R potentialModulePath fromModule toModule)"

text \<open>
  \<open>_loadAsDir\<close> calls itself on the main entry of a manifest, and nothing bounds the
  chain of manifests: where it does not end the promise never settles (\<open>None\<close>).
\<close>

lemma tryResolve_mono [partial_function_mono]:
  assumes "\<And>u. mono_option (\<lambda>f. B f u)"
  shows "mono_option (\<lambda>f. tryResolve action (\<lambda>u. B f u))"
proof (cases action)
  case None
  then show ?thesis by (simp add: tryResolve_def option.const_mono)
next
  case (Some r)
  show ?thesis
  proof (cases r)
    case (Inl e)
    with Some assms [of "()"] show ?thesis
      by (cases "isUnableToResolveError e") (simp_all add: tryResolve_def option.const_mono)
  next
    case (Inr v)
    with Some show ?thesis by (simp add: tryResolve_def option.const_mono)
  qed
qed

partial_function (option) loadAsDir ::
  "request \<Rightarrow> string \<Rightarrow> module \<Rightarrow> string \<Rightarrow> module promise" where
  "loadAsDir R potentialDirPath fromModule toModule =
     (if \<not> dirExists (fastfs R) potentialDirPath
        then Some (Inl (UnableToResolveError fromModule toModule
                          (NotInModuleMap potentialDirPath)))
      else
        (let packageJsonPath = path_join (lib R) [potentialDirPath, ''package.json'']
         in if fileExists (fastfs R) packageJsonPath then
              (case package_getMain (moduleCache R) packageJsonPath of
                 Inl e \<Rightarrow> Some (Inl e)
               | Inr main \<Rightarrow>
                   tryResolve (loadAsFile R main fromModule toModule)
                              (\<lambda>_. loadAsDir R main fromModule toModule))
            else loadAsFile R (path_join (lib R) [potentialDirPath, ''index''])
                   fromModule toModule))"

declare loadAsDir.simps [code]

section \<open>Strings of the language\<close>

text \<open>\<open>s[i]\<close> is \<open>undefined\<close> (\<open>None\<close>) past the end of the string.\<close>

definition charAt :: "string \<Rightarrow> nat \<Rightarrow> char option" where
  "charAt s i = (if i < length s then Some (s ! i) else None)"

text \<open>\<open>s.indexOf(sub, pos)\<close> and \<open>s.lastIndexOf(sub)\<close>: the first (last) index at which
  \<open>sub\<close> occurs, \<open>-1\<close> when there is none; \<open>pos\<close> is clamped to the string.\<close>

definition occursAt :: "string \<Rightarrow> string \<Rightarrow> nat \<Rightarrow> bool" where
  "occursAt s sub k = (take (length sub) (drop k s) = sub)"

definition indexOf :: "string \<Rightarrow> string \<Rightarrow> int \<Rightarrow> int" where
  "indexOf s sub pos =
     (let start = nat (max 0 (min pos (int (length s))))
      in case find (occursAt s sub) [start ..< Suc (length s)] of
           Some k \<Rightarrow> int k
         | None \<Rightarrow> -1)"

definition lastIndexOf :: "string \<Rightarrow> string \<Rightarrow> int" where
  "lastIndexOf s sub =
     (case find (occursAt s sub) (rev [0 ..< Suc (length s)]) of
        Some k \<Rightarrow> int k
      | None \<Rightarrow> -1)"

text \<open>\<open>s.slice(0, end)\<close>: a negative \<open>end\<close> counts from the end of the string.\<close>

definition slice0 :: "string \<Rightarrow> int \<Rightarrow> string" where
  "slice0 s e =
     (let n = int (length s);
          e' = (if e < 0 then max 0 (n + e) else min e n)
      in take (nat e') s)"

text \<open>\<open>p.then(f)\<close> with one handler.\<close>

definition thenP :: "'a promise \<Rightarrow> ('a \<Rightarrow> 'b promise) \<Rightarrow> 'b promise" where
  "thenP p f =
     (case p of
        None \<Rightarrow> None
      | Some (Inl error) \<Rightarrow> Some (Inl error)
      | Some (Inr v) \<Rightarrow> f v)"

section \<open>The resolvers\<close>

text \<open>\<open>_redirectRequire\<close>.\<close>

definition redirectRequire :: "request \<Rightarrow> module \<Rightarrow> string \<Rightarrow> string promise" where
  "redirectRequire R fromModule modulePath =
     (case module_getPackage (moduleCache R) fromModule of
        Some p \<Rightarrow> Some (package_redirectRequire (moduleCache R) p modulePath)
      | None \<Rightarrow> Some (Inr modulePath))"

text \<open>\<open>_resolveFileOrDir\<close>.\<close>

definition resolveFileOrDir :: "request \<Rightarrow> module \<Rightarrow> string \<Rightarrow> module promise" where
  "resolveFileOrDir R fromModule toModuleName =
     (let potentialModulePath =
            (if isAbsolutePath (lib R) toModuleName then toModuleName
             else path_join (lib R)
                    [path_dirname (lib R) (module_path fromModule), toModuleName])
      in thenP (redirectRequire R fromModule potentialModulePath)
           (\<lambda>realModuleName.
              tryResolve (loadAsFile R realModuleName fromModule toModuleName)
                         (\<lambda>_. loadAsDir R realModuleName fromModule toModuleName)))"

text \<open>
  The \<open>for\<close> loop of \<open>_resolveNodeDependency\<close> that fills \<open>searchQueue\<close>: \<open>currDir\<close>
  is the loop variable, \<open>queue\<close> the array so far. The loop ends only when
  \<open>path.dirname\<close> reaches the root of \<open>fromModule.path\<close>.
\<close>

partial_function (option) searchQueue ::
  "request \<Rightarrow> string \<Rightarrow> string \<Rightarrow> string \<Rightarrow> string list \<Rightarrow> string list option" where
  "searchQueue R fromPath realModuleName currDir queue =
     (if currDir \<noteq> parse_root (lib R) fromPath
        then searchQueue R fromPath realModuleName (path_dirname (lib R) currDir)
               (queue @ [path_join (lib R) [currDir, ''node_modules'', realModuleName]])
      else Some queue)"

declare searchQueue.simps [code]

text \<open>The body of \<open>searchQueue.forEach\<close>: the next value of \<open>p\<close>.\<close>

definition searchStep ::
  "request \<Rightarrow> module \<Rightarrow> string \<Rightarrow> module promise \<Rightarrow> string \<Rightarrow> module promise" where
  "searchStep R fromModule toModuleName p potentialModulePath =
     tryResolve
       (tryResolve p (\<lambda>_. loadAsFile R potentialModulePath fromModule toModuleName))
       (\<lambda>_. loadAsDir R potentialModulePath fromModule toModuleName)"

text \<open>\<open>_resolveNodeDependency\<close>.\<close>

definition resolveNodeDependency :: "request \<Rightarrow> module \<Rightarrow> string \<Rightarrow> module promise" where
  "resolveNodeDependency R fromModule toModuleName =
     (if charAt toModuleName 0 = Some CHR ''.'' \<or> charAt toModuleName 1 = Some CHR ''/''
        then resolveFileOrDir R fromModule toModuleName
      else
        thenP (redirectRequire R fromModule toModuleName)
          (\<lambda>realModuleName.
             if charAt realModuleName 0 = Some CHR ''.'' \<or>
                charAt realModuleName 1 = Some CHR ''/''
             then
               (let fromModuleParentIdx =
                      lastIndexOf (module_path fromModule) ''node_modules/'' + 13;
                    fromModuleDir =
                      slice0 (module_path fromModule)
                        (indexOf (module_path fromModule) ''/'' fromModuleParentIdx);
                    absPath = path_join (lib R) [fromModuleDir, realModuleName]
                in resolveFileOrDir R fromModule absPath)
             else
               (case searchQueue R (module_path fromModule) realModuleName
                       (path_dirname (lib R) (module_path fromModule)) [] of
                  None \<Rightarrow> None
                | Some queue \<Rightarrow>
                    foldl (searchStep R fromModule toModuleName)
                      (Some (Inl (UnableToResolveError fromModule toModuleName
                                    NodeModuleNotFound)))
                      queue)))"

text \<open>\<open>normalizePath\<close>; \<open>replace(/\/$/, '')\<close> drops one slash at the end.\<close>

definition normalizePath :: "pathlib \<Rightarrow> string \<Rightarrow> string" where
  "normalizePath L modulePath =
     (let modulePath =
            (if path_sep L = ''/'' then path_normalize L modulePath
             else case path_posix_normalize L of
                    Some posix_normalize \<Rightarrow> posix_normalize modulePath
                  | None \<Rightarrow> modulePath)
      in if modulePath \<noteq> [] \<and> last modulePath = CHR ''/'' then butlast modulePath
         else modulePath)"

text \<open>
  The \<open>while\<close> loop of \<open>_resolveHasteDependency\<close>: the pair of \<open>packageName\<close> and
  \<open>dep\<close> when the loop is left.
\<close>

definition isPackage :: "haste_dep option \<Rightarrow> bool" where
  "isPackage dep = (case dep of Some d \<Rightarrow> dep_type d = ''Package'' | None \<Rightarrow> False)"

partial_function (option) packageLoop ::
  "request \<Rightarrow> string \<Rightarrow> haste_dep option \<Rightarrow> (string \<times> haste_dep option) option" where
  "packageLoop R packageName dep =
     (if packageName \<noteq> [] \<and> packageName \<noteq> ''.'' then
        (let dep = hasteMap R packageName (platform R)
         in if isPackage dep then Some (packageName, dep)
            else packageLoop R (path_dirname (lib R) packageName) dep)
      else Some (packageName, dep))"

declare packageLoop.simps [code]

text \<open>\<open>_resolveHasteDependency\<close>.\<close>

definition resolveHasteDependency :: "request \<Rightarrow> module \<Rightarrow> string \<Rightarrow> module promise" where
  "resolveHasteDependency R fromModule toModuleName0 =
     (let toModuleName = normalizePath (lib R) toModuleName0
      in thenP (redirectRequire R fromModule toModuleName)
           (\<lambda>realModuleName.
              case hasteMap R realModuleName (platform R) of
                Some (HasteModule (Module f)) \<Rightarrow> Some (Inr (Module f))
              | dep \<Rightarrow>
                  (case packageLoop R realModuleName dep of
                     None \<Rightarrow> None
                   | Some (packageName, Some (HastePackage m r)) \<Rightarrow>
                       (let potentialModulePath =
                              path_join (lib R)
                                [r, path_relative (lib R) packageName realModuleName]
                        in tryResolve
                             (loadAsFile R potentialModulePath fromModule toModuleName)
                             (\<lambda>_. loadAsDir R potentialModulePath fromModule toModuleName))
                   | Some (packageName, dep') \<Rightarrow>
                       Some (Inl (UnableToResolveError fromModule toModuleName
                                    UnableToResolveDependency)))))"

section \<open>The resolution memo\<close>

text \<open>\<open>resolutionHash\<close>, and \<open>_immediateResolutionCache\<close> as a map from these keys.\<close>

definition resolutionHash :: "pathlib \<Rightarrow> string \<Rightarrow> string \<Rightarrow> string" where
  "resolutionHash L modulePath depName = path_resolve L modulePath @ '':'' @ depName"

type_synonym cache = "string \<rightharpoonup> module"

text \<open>
  The promise \<open>resolveDependency\<close> hands to \<open>then(cacheResult, forgive)\<close>: the Haste
  resolver with the Node resolver behind it, or the Node resolver alone.
\<close>

definition pipeline :: "request \<Rightarrow> module \<Rightarrow> string \<Rightarrow> module promise" where
  "pipeline R fromModule toModuleName =
     (if \<not> isNodeModulesDir (helpers R) (module_path fromModule) \<and>
         charAt toModuleName 0 \<noteq> Some CHR ''.'' \<and>
         charAt toModuleName 0 \<noteq> Some CHR ''/''
        then tryResolve (resolveHasteDependency R fromModule toModuleName)
               (\<lambda>_. resolveNodeDependency R fromModule toModuleName)
      else resolveNodeDependency R fromModule toModuleName)"

text \<open>
  \<open>resolveDependency\<close>, with the memo passed in and returned. The result of the promise
  is \<open>Some m\<close> for a module and \<open>None\<close> for \<open>null\<close>. \<open>cacheResult\<close> is the first
  handler of \<open>then\<close> and \<open>forgive\<close> the second, so exactly one of them runs.
\<close>

definition resolveDependency ::
  "request \<Rightarrow> cache \<Rightarrow> module \<Rightarrow> string \<Rightarrow> module option promise \<times> cache" where
  "resolveDependency R immediateResolutionCache fromModule toModuleName =
     (let resHash = resolutionHash (lib R) (module_path fromModule) toModuleName
      in case immediateResolutionCache resHash of
           Some m \<Rightarrow> (Some (Inr (Some m)), immediateResolutionCache)
         | None \<Rightarrow>
             (case deprecatedAssetMap R fromModule toModuleName of
                Some asset_DEPRECATED \<Rightarrow>
                  (Some (Inr (Some asset_DEPRECATED)), immediateResolutionCache)
              | None \<Rightarrow>
                  (case pipeline R fromModule toModuleName of
                     None \<Rightarrow> (None, immediateResolutionCache)
                   | Some (Inr result) \<Rightarrow>
                       (Some (Inr (Some result)),
                        immediateResolutionCache(resHash \<mapsto> result))
                   | Some (Inl error) \<Rightarrow>
                       if \<not> isUnableToResolveError error \<or>
                          shouldThrowOnUnresolvedErrors R (entryPath R) (platform R)
                       then (Some (Inl error), immediateResolutionCache)
                       else (Some (Inr None), immediateResolutionCache))))"


section \<open>A POSIX instance of the collaborators, for examples\<close>

fun splitSlash :: "string \<Rightarrow> string list" where
  "splitSlash [] = [[]]"
| "splitSlash (c # cs) =
     (if c = CHR ''/'' then [] # splitSlash cs
      else (case splitSlash cs of w # ws \<Rightarrow> (c # w) # ws | [] \<Rightarrow> [[c]]))"

fun normalizeArray :: "bool \<Rightarrow> string list \<Rightarrow> string list \<Rightarrow> string list" where
  "normalizeArray allowAboveRoot [] res = res"
| "normalizeArray allowAboveRoot (p # parts) res =
     (if p = [] \<or> p = ''.'' then normalizeArray allowAboveRoot parts res
      else if p = ''..'' then
        (if res \<noteq> [] \<and> last res \<noteq> ''..''
           then normalizeArray allowAboveRoot parts (butlast res)
         else if allowAboveRoot then normalizeArray allowAboveRoot parts (res @ [''..''])
         else normalizeArray allowAboveRoot parts res)
      else normalizeArray allowAboveRoot parts (res @ [p]))"

fun joinSlash :: "string list \<Rightarrow> string" where
  "joinSlash [] = []"
| "joinSlash [p] = p"
| "joinSlash (p # ps) = p @ ''/'' @ joinSlash ps"

definition posix_isAbsolute :: "string \<Rightarrow> bool" where
  "posix_isAbsolute p = (case p of c # cs \<Rightarrow> c = CHR ''/'' | [] \<Rightarrow> False)"

definition posix_normalize :: "string \<Rightarrow> string" where
  "posix_normalize p =
     (let isAbs = posix_isAbsolute p;
          trailingSlash = (p \<noteq> [] \<and> last p = CHR ''/'');
          body = joinSlash (normalizeArray (\<not> isAbs) (splitSlash p) []);
          body = (if body = [] \<and> \<not> isAbs then ''.'' else body);
          body = (if body \<noteq> [] \<and> trailingSlash then body @ ''/'' else body)
      in (if isAbs then ''/'' else []) @ body)"

definition posix_join :: "string list \<Rightarrow> string" where
  "posix_join parts = posix_normalize (joinSlash (filter (\<lambda>s. s \<noteq> []) parts))"

definition posix_dirname :: "string \<Rightarrow> string" where
  "posix_dirname p =
     (case p of
        [] \<Rightarrow> ''.''
      | c # cs \<Rightarrow>
          (let body = rev (dropWhile (\<lambda>x. x = CHR ''/'') (rev cs));
               dir = rev (drop 1 (dropWhile (\<lambda>x. x \<noteq> CHR ''/'') (rev body)))
           in if CHR ''/'' \<notin> set body then (if c = CHR ''/'' then ''/'' else ''.'')
              else if c = CHR ''/'' \<and> dir = [] then ''//''
              else c # dir))"

definition posix_resolve :: "string \<Rightarrow> string" where
  "posix_resolve p =
     (let q = posix_normalize (if posix_isAbsolute p then p else ''/'' @ p)
      in if length q > 1 \<and> last q = CHR ''/'' then butlast q else q)"

definition posix_basename :: "string \<Rightarrow> string \<Rightarrow> string" where
  "posix_basename p ext =
     (let base = last (splitSlash (rev (dropWhile (\<lambda>x. x = CHR ''/'') (rev p))))
      in if ext \<noteq> [] \<and> length ext < length base \<and>
            drop (length base - length ext) base = ext
         then take (length base - length ext) base else base)"

definition posix_extname :: "string \<Rightarrow> string" where
  "posix_extname p =
     (let base = posix_basename p [];
          stem = dropWhile (\<lambda>x. x \<noteq> CHR ''.'') (rev base)
      in if length stem \<le> 1 then [] else drop (length stem - 1) base)"

fun dropCommon :: "string list \<Rightarrow> string list \<Rightarrow> string list \<times> string list" where
  "dropCommon (x # xs) (y # ys) = (if x = y then dropCommon xs ys else (x # xs, y # ys))"
| "dropCommon xs ys = (xs, ys)"

definition posix_relative :: "string \<Rightarrow> string \<Rightarrow> string" where
  "posix_relative from to =
     (let (f, t) = dropCommon (normalizeArray False (splitSlash (posix_resolve from)) [])
                              (normalizeArray False (splitSlash (posix_resolve to)) [])
      in joinSlash (map (\<lambda>_. ''..'') f @ t))"

text \<open>
  Regular expressions for the examples: literal characters, \<open>.\<close>, \<open>^\<close>, \<open>$\<close>, \<open>|\<close>, groups
  (also \<open>(?:\<close>), the quantifiers \<open>?\<close>, \<open>+\<close>, \<open>*\<close> (also lazy), the escapes \<open>\d\<close> and \<open>\D\<close>
  and escaped characters, and classes of characters and escapes without ranges. A
  pattern is read from left to right with a stack of the open groups; a group left
  open, a \<open>)\<close> without its group, a quantifier with nothing to repeat, a class left
  open and a \<open>\\<close> at the end are the syntax errors. A regular expression finds a match
  in a string when it matches at some position of it (\<open>search\<close>), which is decided with
  derivatives.
\<close>

datatype regex = Never | Empty | AtStart | AtEnd | Sym "char \<Rightarrow> bool"
  | Seq regex regex | Alt regex regex | Star regex

fun nullable :: "bool \<Rightarrow> bool \<Rightarrow> regex \<Rightarrow> bool" where
  "nullable s e Never = False"
| "nullable s e Empty = True"
| "nullable s e AtStart = s"
| "nullable s e AtEnd = e"
| "nullable s e (Sym p) = False"
| "nullable s e (Seq a b) = (nullable s e a \<and> nullable s e b)"
| "nullable s e (Alt a b) = (nullable s e a \<or> nullable s e b)"
| "nullable s e (Star a) = True"

fun deriv :: "bool \<Rightarrow> char \<Rightarrow> regex \<Rightarrow> regex" where
  "deriv s c Never = Never"
| "deriv s c Empty = Never"
| "deriv s c AtStart = Never"
| "deriv s c AtEnd = Never"
| "deriv s c (Sym p) = (if p c then Empty else Never)"
| "deriv s c (Seq a b) =
     (if nullable s False a then Alt (Seq (deriv s c a) b) (deriv s c b)
      else Seq (deriv s c a) b)"
| "deriv s c (Alt a b) = Alt (deriv s c a) (deriv s c b)"
| "deriv s c (Star a) = Seq (deriv s c a) (Star a)"

fun matchHere :: "bool \<Rightarrow> regex \<Rightarrow> string \<Rightarrow> bool" where
  "matchHere s r [] = nullable s True r"
| "matchHere s r (c # cs) = (nullable s False r \<or> matchHere False (deriv s c r) cs)"

fun search :: "bool \<Rightarrow> regex \<Rightarrow> string \<Rightarrow> bool" where
  "search s r [] = matchHere s r []"
| "search s r (c # cs) = (matchHere s r (c # cs) \<or> search False r cs)"

definition escape :: "char \<Rightarrow> char \<Rightarrow> bool" where
  "escape e x =
     (if e = CHR ''d'' then x \<in> set ''0123456789''
      else if e = CHR ''D'' then x \<notin> set ''0123456789''
      else x = e)"

type_synonym frame = "regex list \<times> regex list"

definition seqOf :: "regex list \<Rightarrow> regex" where
  "seqOf items = foldl (\<lambda>acc r. Seq r acc) Empty items"

definition altOf :: "frame \<Rightarrow> regex" where
  "altOf f = foldl (\<lambda>acc r. Alt r acc) (seqOf (snd f)) (fst f)"

definition quantified :: "char \<Rightarrow> regex \<Rightarrow> regex" where
  "quantified c r =
     (if c = CHR ''?'' then Alt r Empty
      else if c = CHR ''+'' then Seq r (Star r)
      else Star r)"

fun isAssertion :: "regex \<Rightarrow> bool" where
  "isAssertion AtStart = True"
| "isAssertion AtEnd = True"
| "isAssertion r = False"

definition atom :: "char \<Rightarrow> regex" where
  "atom c =
     (if c = CHR ''.'' then Sym (\<lambda>x. x \<noteq> CHR 0x0A \<and> x \<noteq> CHR 0x0D)
      else if c = CHR ''^'' then AtStart
      else if c = CHR ''$'' then AtEnd
      else Sym (\<lambda>x. x = c))"

text \<open>
  \<open>parseRegExp cs cls q cur stack\<close>: \<open>cls\<close> is the class being read (negated or not,
  and its characters so far), \<open>q\<close> tells whether the last item has a quantifier (1) or
  a lazy one (2), \<open>cur\<close> holds the alternatives and the items (last first) of the
  innermost open group, \<open>stack\<close> those of the groups around it.
\<close>

fun parseRegExp ::
  "string \<Rightarrow> (bool \<times> (char \<Rightarrow> bool)) option \<Rightarrow> nat \<Rightarrow> frame \<Rightarrow> frame list \<Rightarrow> regex option"
where
  "parseRegExp [] None q cur stack = (case stack of [] \<Rightarrow> Some (altOf cur) | f # fs \<Rightarrow> None)"
| "parseRegExp [] (Some cls) q cur stack = None"
| "parseRegExp (c # cs) (Some (neg, p)) q cur stack =
     (if c = CHR '']''
        then parseRegExp cs None 0 (fst cur, Sym (\<lambda>x. p x \<noteq> neg) # snd cur) stack
      else if c = backslash then
        (case cs of
           [] \<Rightarrow> None
         | e # cs' \<Rightarrow> parseRegExp cs' (Some (neg, \<lambda>x. p x \<or> escape e x)) q cur stack)
      else parseRegExp cs (Some (neg, \<lambda>x. p x \<or> x = c)) q cur stack)"
| "parseRegExp (c # cs) None q cur stack =
     (if c = CHR ''('' then
        (if take 2 cs = ''?:'' then parseRegExp (drop 2 cs) None 0 ([], []) (cur # stack)
         else parseRegExp cs None 0 ([], []) (cur # stack))
      else if c = CHR '')'' then
        (case stack of
           [] \<Rightarrow> None
         | f # fs \<Rightarrow> parseRegExp cs None 0 (fst f, altOf cur # snd f) fs)
      else if c = CHR ''|'' then parseRegExp cs None 0 (seqOf (snd cur) # fst cur, []) stack
      else if c = CHR ''?'' \<or> c = CHR ''+'' \<or> c = CHR ''*'' then
        (case snd cur of
           [] \<Rightarrow> None
         | r # items \<Rightarrow>
             if q = 1 \<and> c = CHR ''?'' then parseRegExp cs None 2 cur stack
             else if q \<noteq> 0 \<or> isAssertion r then None
             else parseRegExp cs None 1 (fst cur, quantified c r # items) stack)
      else if c = CHR ''['' then
        (case cs of
           [] \<Rightarrow> None
         | d # cs' \<Rightarrow>
             if d = CHR ''^'' then parseRegExp cs' (Some (True, \<lambda>x. False)) 0 cur stack
             else parseRegExp cs (Some (False, \<lambda>x. False)) 0 cur stack)
      else if c = backslash then
        (case cs of
           [] \<Rightarrow> None
         | e # cs' \<Rightarrow> parseRegExp cs' None 0 (fst cur, Sym (escape e) # snd cur) stack)
      else parseRegExp cs None 0 (fst cur, atom c # snd cur) stack)"

definition newRegExp_example :: "string \<Rightarrow> (string \<Rightarrow> bool) option" where
  "newRegExp_example pattern =
     map_option (search True) (parseRegExp pattern None 0 ([], []) [])"

definition posix :: pathlib where
  "posix = \<lparr> path_dirname = posix_dirname, path_join = posix_join,
             path_relative = posix_relative, path_resolve = posix_resolve,
             path_normalize = posix_normalize, path_sep = ''/'',
             path_posix_normalize = Some posix_normalize,
             path_basename = posix_basename, path_extname = posix_extname,
             parse_root = (\<lambda>p. if posix_isAbsolute p then ''/'' else []),
             isAbsolutePath = posix_isAbsolute,
             getAssetDataFromName =
               (\<lambda>p. (posix_basename p (posix_extname p), drop 1 (posix_extname p))),
             newRegExp = newRegExp_example \<rparr>"

text \<open>
  A request over a file system given by the lists of its files and directories: no
  platform, an empty Haste map, no packages, \<open>.png\<close> as the only asset extension, and
  the hash of a module made of its class and path. \<open>matches dir pattern\<close> gives the files
  of \<open>dir\<close> in whose name the pattern finds a match.
\<close>

definition exampleHash :: "module \<Rightarrow> string" where
  "exampleHash m =
     (case m of
        Module p \<Rightarrow> ''Module : '' @ p
      | AssetModule p \<Rightarrow> ''AssetModule : '' @ p
      | AssetModule_DEPRECATED p \<Rightarrow> ''AssetModule_DEPRECATED : '' @ p)"

definition exampleRequest :: "string list \<Rightarrow> string list \<Rightarrow> request" where
  "exampleRequest files dirs =
     \<lparr> platform = None, preferNativePlatform = False, entryPath = ''/root/a.js'',
       hasteMap = (\<lambda>name pf. None),
       deprecatedAssetMap = (\<lambda>fromModule name. None),
       helpers = \<lparr> isNodeModulesDir = (\<lambda>p. indexOf p ''/node_modules/'' 0 \<noteq> -1),
                   isAssetFile = (\<lambda>p. posix_extname p = ''.png'') \<rparr>,
       moduleCache = \<lparr> module_getPackage = (\<lambda>m. None),
                       module_getDependencies = (\<lambda>m. Inr []),
                       module_getName = (\<lambda>m. Inr (module_path m)),
                       module_hash = exampleHash,
                       package_getMain = (\<lambda>p. Inl (OtherError ''ENOENT'')),
                       package_redirectRequire = (\<lambda>p name. Inr name),
                       package_getName = (\<lambda>p. Inl (OtherError ''ENOENT'')) \<rparr>,
       fastfs = \<lparr> fileExists = (\<lambda>p. p \<in> set files),
                  dirExists = (\<lambda>p. p \<in> set dirs),
                  matches = (\<lambda>dir pattern.
                     filter (\<lambda>f. posix_dirname f = dir \<and> pattern (posix_basename f [])) files),
                  matchFilesByPattern = (\<lambda>pattern. []) \<rparr>,
       shouldThrowOnUnresolvedErrors = (\<lambda>entry pf. True),
       lib = posix \<rparr>"


section \<open>The loader and the resolvers against their specification\<close>

text \<open>The order of the probes and the result of the loader, in the words of the
  specification.\<close>

definition spec_probeOrder :: "request \<Rightarrow> string \<Rightarrow> string list" where
  "spec_probeOrder R p =
     [p] @
     (case platform R of Some pf \<Rightarrow> [p @ ''.'' @ pf @ ''.js''] | None \<Rightarrow> []) @
     (if preferNativePlatform R then [p @ ''.native.js''] else []) @
     [p @ ''.js'', p @ ''.json'']"

definition spec_loadAsFile :: "request \<Rightarrow> string \<Rightarrow> module \<Rightarrow> string \<Rightarrow> module promise" where
  "spec_loadAsFile R p fromModule toModule =
     (case find (fileExists (fastfs R)) (spec_probeOrder R p) of
        Some file \<Rightarrow> Some (Inr (Module file))
      | None \<Rightarrow> Some (Inl (UnableToResolveError fromModule toModule (FileDoesntExist p))))"

text \<open>A promise rejected with an \<open>UnableToResolveError\<close>; an alternative that is used
  only after such a failure; a candidate tried as a file, then as a directory; and the
  first attempt of a list that does not fail so (the last attempt when all do).\<close>

definition failedUnableToResolve :: "'a promise \<Rightarrow> bool" where
  "failedUnableToResolve p =
     (case p of Some (Inl error) \<Rightarrow> isUnableToResolveError error | _ \<Rightarrow> False)"

definition spec_fallback :: "'a promise \<Rightarrow> 'a promise \<Rightarrow> 'a promise" where
  "spec_fallback previous alternative =
     (if failedUnableToResolve previous then alternative else previous)"

definition fileThenDir :: "request \<Rightarrow> module \<Rightarrow> string \<Rightarrow> string \<Rightarrow> module promise" where
  "fileThenDir R fromModule toModuleName candidate =
     spec_fallback (loadAsFile R candidate fromModule toModuleName)
                   (loadAsDir R candidate fromModule toModuleName)"

fun firstSettled :: "'a promise \<Rightarrow> 'a promise list \<Rightarrow> 'a promise" where
  "firstSettled previous [] = previous"
| "firstSettled previous (c # cs) =
     (if failedUnableToResolve previous then firstSettled c cs else previous)"

lemma probeFile_spec: "probeFile R p fm tm = spec_loadAsFile R p fm tm"
  by (cases "platform R") (simp_all add: probeFile_def spec_loadAsFile_def spec_probeOrder_def)

lemma tryResolve_fallback: "tryResolve action secondary = spec_fallback action (secondary ())"
  by (simp add: tryResolve_def spec_fallback_def failedUnableToResolve_def
           split: option.splits sum.splits)

lemma loadAsDir_missing:
  "\<not> dirExists (fastfs R) d \<Longrightarrow>
   loadAsDir R d fm tm = Some (Inl (UnableToResolveError fm tm (NotInModuleMap d)))"
  by (subst loadAsDir.simps) simp

lemma loadAsDir_index:
  "dirExists (fastfs R) d \<Longrightarrow> \<not> fileExists (fastfs R) (path_join (lib R) [d, ''package.json'']) \<Longrightarrow>
   loadAsDir R d fm tm = loadAsFile R (path_join (lib R) [d, ''index'']) fm tm"
  by (subst loadAsDir.simps) simp

lemma searchQueue_stop:
  "currDir = parse_root (lib R) fromPath \<Longrightarrow> searchQueue R fromPath name currDir queue = Some queue"
  by (subst searchQueue.simps) simp

lemma searchQueue_next:
  "currDir \<noteq> parse_root (lib R) fromPath \<Longrightarrow>
   searchQueue R fromPath name currDir queue =
   searchQueue R fromPath name (path_dirname (lib R) currDir)
     (queue @ [path_join (lib R) [currDir, ''node_modules'', name]])"
  by (subst searchQueue.simps) simp

lemma packageLoop_stop:
  "packageName = [] \<or> packageName = ''.'' \<Longrightarrow> packageLoop R packageName dep = Some (packageName, dep)"
  by (subst packageLoop.simps) auto

lemma packageLoop_next:
  "packageName \<noteq> [] \<Longrightarrow> packageName \<noteq> ''.'' \<Longrightarrow>
   packageLoop R packageName dep =
   (if isPackage (hasteMap R packageName (platform R))
      then Some (packageName, hasteMap R packageName (platform R))
    else packageLoop R (path_dirname (lib R) packageName) (hasteMap R packageName (platform R)))"
  by (subst packageLoop.simps) (simp add: Let_def)

lemma searchStep_fallback:
  "searchStep R fm tm p c = spec_fallback p (fileThenDir R fm tm c)"
  by (simp add: searchStep_def tryResolve_fallback fileThenDir_def spec_fallback_def)

lemma firstSettled_settled: "\<not> failedUnableToResolve p \<Longrightarrow> firstSettled p cs = p"
  by (cases cs) simp_all

lemma search_fold:
  "foldl (searchStep R fm tm) p queue = firstSettled p (map (fileThenDir R fm tm) queue)"
proof (induction queue arbitrary: p)
  case Nil
  show ?case by simp
next
  case (Cons c queue)
  have "foldl (searchStep R fm tm) p (c # queue) =
        foldl (searchStep R fm tm) (searchStep R fm tm p c) queue"
    by simp
  also have "\<dots> = firstSettled (searchStep R fm tm p c) (map (fileThenDir R fm tm) queue)"
    by (rule Cons.IH)
  also have "\<dots> = firstSettled p (map (fileThenDir R fm tm) (c # queue))"
    by (cases "failedUnableToResolve p")
       (simp_all add: searchStep_fallback spec_fallback_def firstSettled_settled)
  finally show ?case .
qed




lemma firstSettled_first:
  "failedUnableToResolve p \<Longrightarrow> k < length cs \<Longrightarrow>
   (\<forall>j<k. failedUnableToResolve (cs ! j)) \<Longrightarrow> \<not> failedUnableToResolve (cs ! k) \<Longrightarrow>
   firstSettled p cs = cs ! k"
proof (induction cs arbitrary: p k)
  case Nil
  then show ?case by simp
next
  case (Cons c cs)
  show ?case
  proof (cases k)
    case 0
    with Cons.prems show ?thesis by (simp add: firstSettled_settled)
  next
    case (Suc k')
    from Cons.prems(3) Suc have c: "failedUnableToResolve c" by auto
    from Cons.prems(3) Suc have "\<forall>j<k'. failedUnableToResolve (cs ! j)" by auto
    with Cons.IH [of c k'] c Cons.prems Suc show ?thesis by simp
  qed
qed

lemma firstSettled_all_failed:
  "cs \<noteq> [] \<Longrightarrow> failedUnableToResolve p \<Longrightarrow> \<forall>c\<in>set cs. failedUnableToResolve c \<Longrightarrow>
   firstSettled p cs = last cs"
  by (induction cs arbitrary: p) auto

text \<open>The first \<open>n\<close> ancestor directories of a path, its parent first.\<close>

definition spec_ancestors :: "request \<Rightarrow> string \<Rightarrow> nat \<Rightarrow> string list" where
  "spec_ancestors R p n = map (\<lambda>k. (path_dirname (lib R) ^^ Suc k) p) [0..<n]"

lemma searchQueue_returns:
  "(path_dirname (lib R) ^^ n) d = parse_root (lib R) fromPath \<Longrightarrow>
   \<forall>k<n. (path_dirname (lib R) ^^ k) d \<noteq> parse_root (lib R) fromPath \<Longrightarrow>
   searchQueue R fromPath name d acc =
   Some (acc @ map (\<lambda>k. path_join (lib R) [(path_dirname (lib R) ^^ k) d, ''node_modules'', name])
                  [0..<n])"
proof (induction n arbitrary: d acc)
  case 0
  then show ?case by (simp add: searchQueue_stop)
next
  case (Suc n)
  let ?dn = "path_dirname (lib R)"
  from Suc.prems(2) have d: "d \<noteq> parse_root (lib R) fromPath" by force
  have reach: "(?dn ^^ n) (?dn d) = parse_root (lib R) fromPath"
    using Suc.prems(1) by (simp add: funpow_swap1)
  have before: "\<forall>k<n. (?dn ^^ k) (?dn d) \<noteq> parse_root (lib R) fromPath"
  proof (intro allI impI)
    fix k assume "k < n"
    then have "(?dn ^^ Suc k) d \<noteq> parse_root (lib R) fromPath"
      using Suc.prems(2) by blast
    then show "(?dn ^^ k) (?dn d) \<noteq> parse_root (lib R) fromPath"
      by (simp add: funpow_swap1)
  qed
  have shift: "map (\<lambda>k. path_join (lib R) [(?dn ^^ k) d, ''node_modules'', name]) [0..<Suc n] =
        path_join (lib R) [d, ''node_modules'', name] #
        map (\<lambda>k. path_join (lib R) [(?dn ^^ k) (?dn d), ''node_modules'', name]) [0..<n]"
    by (simp only: map_upt_Suc) (simp add: funpow_swap1)
  show ?case
    unfolding searchQueue_next [OF d] Suc.IH [OF reach before] shift by simp
qed

lemma searchQueue_ancestors:
  assumes "(path_dirname (lib R) ^^ Suc n) p = parse_root (lib R) p"
    and "parse_root (lib R) p \<notin> set (spec_ancestors R p n)"
  shows "searchQueue R p name (path_dirname (lib R) p) [] =
         Some (map (\<lambda>dir. path_join (lib R) [dir, ''node_modules'', name]) (spec_ancestors R p n))"
proof -
  let ?dn = "path_dirname (lib R)"
  have reach: "(?dn ^^ n) (?dn p) = parse_root (lib R) p"
    using assms(1) by (simp add: funpow_swap1)
  have before: "\<forall>k<n. (?dn ^^ k) (?dn p) \<noteq> parse_root (lib R) p"
  proof (intro allI impI)
    fix k assume "k < n"
    then have "(?dn ^^ Suc k) p \<in> set (spec_ancestors R p n)"
      by (simp add: spec_ancestors_def)
    with assms(2) have "(?dn ^^ Suc k) p \<noteq> parse_root (lib R) p" by metis
    then show "(?dn ^^ k) (?dn p) \<noteq> parse_root (lib R) p"
      by (simp add: funpow_swap1)
  qed
  show ?thesis
    unfolding searchQueue_returns [OF reach before]
    by (simp add: spec_ancestors_def funpow_swap1 comp_def)
qed

lemma resolveNode_search:
  assumes "charAt n 0 \<noteq> Some CHR ''.''" and "charAt n 1 \<noteq> Some CHR ''/''"
    and "redirectRequire R fm n = Some (Inr real)"
    and "charAt real 0 \<noteq> Some CHR ''.''" and "charAt real 1 \<noteq> Some CHR ''/''"
    and "searchQueue R (module_path fm) real (path_dirname (lib R) (module_path fm)) [] = Some queue"
  shows "resolveNodeDependency R fm n =
         firstSettled (Some (Inl (UnableToResolveError fm n NodeModuleNotFound)))
           (map (fileThenDir R fm n) queue)"
  using assms by (simp add: resolveNodeDependency_def thenP_def search_fold)

lemmas example_defs =
  exampleRequest_def posix_def posix_join_def posix_dirname_def posix_normalize_def
  posix_isAbsolute_def posix_resolve_def posix_extname_def posix_basename_def

lemmas resolver_defs =
  resolveDependency_def resolutionHash_def pipeline_def charAt_def
  resolveNodeDependency_def resolveFileOrDir_def redirectRequire_def thenP_def
  loadAsFile_def probeFile_def tryResolve_def indexOf_def occursAt_def
  searchStep_def resolveHasteDependency_def normalizePath_def


text \<open>A tree with \<open>node_modules/lib\<close> below \<open>/root/app\<close> and below \<open>/root\<close>.\<close>

definition exampleTree :: request where
  "exampleTree =
     exampleRequest
       [''/root/app/node_modules/lib/index.js'', ''/root/node_modules/lib/index.js'']
       [''/'', ''/root'', ''/root/app'', ''/root/app/src'', ''/root/app/node_modules'',
        ''/root/node_modules'', ''/root/app/node_modules/lib'', ''/root/node_modules/lib'']"

lemmas example_simps =
  resolver_defs example_defs searchQueue_stop searchQueue_next loadAsDir_missing
  loadAsDir_index

text \<open>
  C4. For a path that is not an asset, \<open>loadAsFile\<close> probes the file index in the order
  of \<open>spec_probeOrder\<close>: the exact path, the platform variant (when a platform is set),
  the native variant (when the native platform is preferred), \<open>.js\<close>, \<open>.json\<close>; it
  gives the module of the first probe that exists and fails with \<open>UnableToResolveError\<close>
  naming the candidate path when there is none. With only \<open>/root/x.json\<close> on disk,
  \<open>./x\<close> required from \<open>/root/a.js\<close> resolves to \<open>/root/x.json\<close>.
\<close>

theorem loadAsFile_probe_order:
  "(\<not> isAssetFile (helpers R) p \<longrightarrow> loadAsFile R p fm tm = spec_loadAsFile R p fm tm) \<and>
   fst (resolveDependency (exampleRequest [''/root/x.json''] [''/'', ''/root''])
          Map.empty (Module ''/root/a.js'') ''./x'')
     = Some (Inr (Some (Module ''/root/x.json'')))"
proof
  show "\<not> isAssetFile (helpers R) p \<longrightarrow> loadAsFile R p fm tm = spec_loadAsFile R p fm tm"
    by (simp add: loadAsFile_def probeFile_spec)
  show "fst (resolveDependency (exampleRequest [''/root/x.json''] [''/'', ''/root''])
          Map.empty (Module ''/root/a.js'') ''./x'')
     = Some (Inr (Some (Module ''/root/x.json'')))"
    by (simp add: resolver_defs example_defs)
qed

theorem loadAsFile_probe_order_witness:
  "\<not> isAssetFile (helpers (exampleRequest [''/root/x.json''] [''/'', ''/root''])) ''/root/x'' \<and>
   loadAsFile (exampleRequest [''/root/x.json''] [''/'', ''/root'']) ''/root/x''
     (Module ''/root/a.js'') ''./x'' = Some (Inr (Module ''/root/x.json''))"
  using loadAsFile_probe_order
    [of "exampleRequest [''/root/x.json''] [''/'', ''/root'']" "''/root/x''"
        "Module ''/root/a.js''" "''./x''"]
  by (simp add: example_defs spec_loadAsFile_def spec_probeOrder_def)






text \<open>
  C3. \<open>_resolveNodeDependency\<close> tests \<open>toModuleName[1] === '/'\<close>, not
  \<open>toModuleName[0]\<close>. The absolute specifier \<open>/root/lib/x.js\<close>, whose file exists, is
  therefore sent through the \<open>node_modules\<close> search and fails, although
  \<open>resolveFileOrDir\<close> resolves it; and the bare specifier \<open>x/y\<close> is resolved
  relative to the requiring module although \<open>node_modules/x/y.js\<close> exists.
\<close>

theorem absolute_specifier_misrouted:
  "resolveNodeDependency
     (exampleRequest [''/root/lib/x.js''] [''/'', ''/root'', ''/root/lib''])
     (Module ''/root/a.js'') ''/root/lib/x.js''
   = Some (Inl (UnableToResolveError (Module ''/root/a.js'') ''/root/lib/x.js''
                  (NotInModuleMap ''/root/node_modules/root/lib/x.js''))) \<and>
   resolveFileOrDir
     (exampleRequest [''/root/lib/x.js''] [''/'', ''/root'', ''/root/lib''])
     (Module ''/root/a.js'') ''/root/lib/x.js''
   = Some (Inr (Module ''/root/lib/x.js'')) \<and>
   resolveNodeDependency
     (exampleRequest [''/root/x/y.js'', ''/root/node_modules/x/y.js'']
        [''/'', ''/root'', ''/root/x'', ''/root/node_modules'', ''/root/node_modules/x''])
     (Module ''/root/a.js'') ''x/y''
   = Some (Inr (Module ''/root/x/y.js''))"
  by (simp add: example_simps)



text \<open>
  C1, as the code has it. When a specifier takes the \<open>node_modules\<close> search and the
  requiring module has \<open>k\<close> ancestor directories below the root, the candidates are
  \<open>ancestor/node_modules/name\<close> for these ancestors, the parent of the module first and
  the root excluded; each candidate is tried as a file, then as a directory; the result
  is that of the first candidate that does not fail with \<open>UnableToResolveError\<close> (so
  the first success wins); if all of them fail so, the result is the failure of the last
  candidate, and it is \<open>Node module not found\<close> only when there is no candidate.
\<close>

theorem node_modules_search_order:
  assumes "charAt n 0 \<noteq> Some CHR ''.''" and "charAt n 1 \<noteq> Some CHR ''/''"
    and "redirectRequire R fm n = Some (Inr real)"
    and "charAt real 0 \<noteq> Some CHR ''.''" and "charAt real 1 \<noteq> Some CHR ''/''"
    and "(path_dirname (lib R) ^^ Suc k) (module_path fm) = parse_root (lib R) (module_path fm)"
    and "parse_root (lib R) (module_path fm) \<notin> set (spec_ancestors R (module_path fm) k)"
  shows "let candidates = map (\<lambda>dir. path_join (lib R) [dir, ''node_modules'', real])
                              (spec_ancestors R (module_path fm) k);
             attempts = map (fileThenDir R fm n) candidates;
             notFound = Some (Inl (UnableToResolveError fm n NodeModuleNotFound));
             result = resolveNodeDependency R fm n
         in result = firstSettled notFound attempts \<and>
            (\<forall>i<k. (\<forall>j<i. failedUnableToResolve (attempts ! j)) \<and>
                    \<not> failedUnableToResolve (attempts ! i) \<longrightarrow> result = attempts ! i) \<and>
            (k \<noteq> 0 \<and> (\<forall>a\<in>set attempts. failedUnableToResolve a) \<longrightarrow>
               result = last attempts) \<and>
            (k = 0 \<longrightarrow> result = notFound)"
proof -
  let ?attempts = "map (fileThenDir R fm n)
                     (map (\<lambda>dir. path_join (lib R) [dir, ''node_modules'', real])
                        (spec_ancestors R (module_path fm) k))"
  let ?notFound = "Some (Inl (UnableToResolveError fm n NodeModuleNotFound)) :: module promise"
  have len: "length ?attempts = k"
    by (simp add: spec_ancestors_def)
  have nf: "failedUnableToResolve ?notFound"
    by (simp add: failedUnableToResolve_def)
  have res: "resolveNodeDependency R fm n = firstSettled ?notFound ?attempts"
    by (rule resolveNode_search [OF assms(1-5) searchQueue_ancestors [OF assms(6,7)]])
  have first: "\<forall>i<k. (\<forall>j<i. failedUnableToResolve (?attempts ! j)) \<and>
                    \<not> failedUnableToResolve (?attempts ! i) \<longrightarrow>
                    resolveNodeDependency R fm n = ?attempts ! i"
  proof (intro allI impI)
    fix i
    assume i: "i < k"
      and settled: "(\<forall>j<i. failedUnableToResolve (?attempts ! j)) \<and>
                    \<not> failedUnableToResolve (?attempts ! i)"
    from i len have "i < length ?attempts" by simp
    from firstSettled_first [OF nf this] settled
    show "resolveNodeDependency R fm n = ?attempts ! i"
      unfolding res by blast
  qed
  have allf: "k \<noteq> 0 \<and> (\<forall>a\<in>set ?attempts. failedUnableToResolve a) \<longrightarrow>
               resolveNodeDependency R fm n = last ?attempts"
  proof
    assume a: "k \<noteq> 0 \<and> (\<forall>a\<in>set ?attempts. failedUnableToResolve a)"
    with len have "?attempts \<noteq> []" by fastforce
    from firstSettled_all_failed [OF this nf] a
    show "resolveNodeDependency R fm n = last ?attempts"
      unfolding res by blast
  qed
  have none: "k = 0 \<longrightarrow> resolveNodeDependency R fm n = ?notFound"
    unfolding res by (simp add: spec_ancestors_def)
  show ?thesis
    unfolding Let_def using res first allf none by (intro conjI)
qed

theorem node_modules_search_order_witness:
  "charAt ''lib'' 0 \<noteq> Some CHR ''.'' \<and> charAt ''lib'' 1 \<noteq> Some CHR ''/'' \<and>
   redirectRequire exampleTree (Module ''/root/app/src/a.js'') ''lib'' = Some (Inr ''lib'') \<and>
   (path_dirname (lib exampleTree) ^^ Suc 3) ''/root/app/src/a.js'' =
     parse_root (lib exampleTree) ''/root/app/src/a.js'' \<and>
   spec_ancestors exampleTree ''/root/app/src/a.js'' 3 =
     [''/root/app/src'', ''/root/app'', ''/root''] \<and>
   failedUnableToResolve (fileThenDir exampleTree (Module ''/root/app/src/a.js'') ''lib''
      ''/root/app/src/node_modules/lib'') \<and>
   fileThenDir exampleTree (Module ''/root/app/src/a.js'') ''lib'' ''/root/app/node_modules/lib''
     = Some (Inr (Module ''/root/app/node_modules/lib/index.js'')) \<and>
   fileThenDir exampleTree (Module ''/root/app/src/a.js'') ''lib'' ''/root/node_modules/lib''
     = Some (Inr (Module ''/root/node_modules/lib/index.js'')) \<and>
   resolveNodeDependency exampleTree (Module ''/root/app/src/a.js'') ''lib''
     = Some (Inr (Module ''/root/app/node_modules/lib/index.js''))"
proof -
  have anc: "spec_ancestors exampleTree ''/root/app/src/a.js'' 3 =
     [''/root/app/src'', ''/root/app'', ''/root'']"
    by (simp add: spec_ancestors_def exampleTree_def example_defs upt_rec numeral_3_eq_3)
  have h1: "charAt ''lib'' 0 \<noteq> Some CHR ''.''" and h2: "charAt ''lib'' 1 \<noteq> Some CHR ''/''"
    by (simp_all add: charAt_def)
  have h3: "redirectRequire exampleTree (Module ''/root/app/src/a.js'') ''lib'' = Some (Inr ''lib'')"
    by (simp add: redirectRequire_def exampleTree_def exampleRequest_def)
  have h6: "(path_dirname (lib exampleTree) ^^ Suc 3) (module_path (Module ''/root/app/src/a.js'')) =
     parse_root (lib exampleTree) (module_path (Module ''/root/app/src/a.js''))"
    by (simp add: exampleTree_def example_defs numeral_3_eq_3)
  have h7: "parse_root (lib exampleTree) (module_path (Module ''/root/app/src/a.js'')) \<notin>
     set (spec_ancestors exampleTree (module_path (Module ''/root/app/src/a.js'')) 3)"
    using anc by (simp add: exampleTree_def example_defs)
  have a0: "failedUnableToResolve (fileThenDir exampleTree (Module ''/root/app/src/a.js'') ''lib''
      ''/root/app/src/node_modules/lib'')"
    by (simp add: example_simps exampleTree_def fileThenDir_def spec_fallback_def
          failedUnableToResolve_def)
  have a1: "fileThenDir exampleTree (Module ''/root/app/src/a.js'') ''lib'' ''/root/app/node_modules/lib''
     = Some (Inr (Module ''/root/app/node_modules/lib/index.js''))"
    by (simp add: example_simps exampleTree_def fileThenDir_def spec_fallback_def
          failedUnableToResolve_def)
  have a2: "fileThenDir exampleTree (Module ''/root/app/src/a.js'') ''lib'' ''/root/node_modules/lib''
     = Some (Inr (Module ''/root/node_modules/lib/index.js''))"
    by (simp add: example_simps exampleTree_def fileThenDir_def spec_fallback_def
          failedUnableToResolve_def)
  have join: "path_join (lib exampleTree) = posix_join"
    by (simp add: exampleTree_def exampleRequest_def posix_def)
  from node_modules_search_order [OF h1 h2 h3 h1 h2 h6 h7]
  have "resolveNodeDependency exampleTree (Module ''/root/app/src/a.js'') ''lib''
     = Some (Inr (Module ''/root/app/node_modules/lib/index.js''))"
    using a0 a1 a2
    by (simp add: Let_def anc join posix_join_def posix_normalize_def posix_isAbsolute_def
          failedUnableToResolve_def)
  with anc h1 h2 h3 h6 a0 a1 a2 show ?thesis by simp
qed

text \<open>
  With no \<open>node_modules\<close> directory at all, \<open>lib\<close> required from \<open>/root/app/a.js\<close>
  fails with the error of the directory loader for the last candidate,
  \<open>/root/node_modules/lib\<close>, not with \<open>Node module not found\<close>.
\<close>

theorem last_candidate_error_counterexample:
  "resolveNodeDependency (exampleRequest [] [''/'', ''/root'', ''/root/app''])
     (Module ''/root/app/a.js'') ''lib''
   = Some (Inl (UnableToResolveError (Module ''/root/app/a.js'') ''lib''
                  (NotInModuleMap ''/root/node_modules/lib''))) \<and>
   resolveNodeDependency (exampleRequest [] [''/'', ''/root'', ''/root/app''])
     (Module ''/root/app/a.js'') ''lib''
   \<noteq> Some (Inl (UnableToResolveError (Module ''/root/app/a.js'') ''lib'' NodeModuleNotFound))"
  by (simp add: example_simps)


section \<open>The memo and the deprecated asset map\<close>

text \<open>The memo after a sequence of calls of \<open>resolveDependency\<close>.\<close>

fun session :: "request \<Rightarrow> cache \<Rightarrow> (module \<times> string) list \<Rightarrow> cache" where
  "session R c [] = c"
| "session R c ((fromModule, toModuleName) # calls) =
     session R (snd (resolveDependency R c fromModule toModuleName)) calls"

lemma resolveDependency_hit:
  "c (resolutionHash (lib R) (module_path fm) n) = Some m \<Longrightarrow>
   resolveDependency R c fm n = (Some (Inr (Some m)), c)"
  by (simp add: resolveDependency_def)

lemma resolveDependency_keeps:
  "c key = Some m \<Longrightarrow> snd (resolveDependency R c fm n) key = Some m"
  by (auto simp: resolveDependency_def Let_def split: option.splits sum.splits)

lemma session_keeps: "c key = Some m \<Longrightarrow> session R c calls key = Some m"
proof (induction calls arbitrary: c)
  case Nil
  then show ?case by simp
next
  case (Cons call calls)
  obtain fm n where call: "call = (fm, n)" by (cases call)
  from Cons.prems have "snd (resolveDependency R c fm n) key = Some m"
    by (rule resolveDependency_keeps)
  then show ?case unfolding call by (simp add: Cons.IH)
qed

text \<open>
  C2, as the code has it. For a pair whose key is not in the memo and that the deprecated
  asset map does not match: if the pipeline yields a module, the call returns it and
  stores it under \<open>resolve(fromModule.path) + ':' + toModuleName\<close>, and after any further
  calls a later call for the pair returns the stored module, whatever the collaborators
  (file system, Haste map, asset map) answer by then, so the pipeline is not run again; if
  the pipeline fails with a tolerated \<open>UnableToResolveError\<close>, the call returns
  \<open>null\<close> and leaves the memo as it was.
\<close>

theorem memo_stores_resolved_module:
  assumes "c (resolutionHash (lib R) (module_path fm) n) = None"
    and "deprecatedAssetMap R fm n = None"
  shows "(pipeline R fm n = Some (Inr m) \<longrightarrow>
            resolveDependency R c fm n =
              (Some (Inr (Some m)), c(resolutionHash (lib R) (module_path fm) n \<mapsto> m)) \<and>
            (\<forall>calls (R'::request). lib R' = lib R \<longrightarrow>
               (let later = session R (snd (resolveDependency R c fm n)) calls
                in resolveDependency R' later fm n = (Some (Inr (Some m)), later)))) \<and>
         (pipeline R fm n = Some (Inl e) \<and> isUnableToResolveError e \<and>
          \<not> shouldThrowOnUnresolvedErrors R (entryPath R) (platform R) \<longrightarrow>
            resolveDependency R c fm n = (Some (Inr None), c))"
proof (intro conjI impI)
  assume p: "pipeline R fm n = Some (Inr m)"
  let ?key = "resolutionHash (lib R) (module_path fm) n"
  from assms p show first: "resolveDependency R c fm n = (Some (Inr (Some m)), c(?key \<mapsto> m))"
    by (simp add: resolveDependency_def)
  show "\<forall>calls (R'::request). lib R' = lib R \<longrightarrow>
          (let later = session R (snd (resolveDependency R c fm n)) calls
           in resolveDependency R' later fm n = (Some (Inr (Some m)), later))"
  proof (intro allI impI)
    fix calls and R' :: request
    assume l: "lib R' = lib R"
    have "session R (snd (resolveDependency R c fm n)) calls ?key = Some m"
      by (rule session_keeps) (simp add: first)
    then show "let later = session R (snd (resolveDependency R c fm n)) calls
               in resolveDependency R' later fm n = (Some (Inr (Some m)), later)"
      unfolding Let_def by (intro resolveDependency_hit) (simp add: l)
  qed
next
  assume "pipeline R fm n = Some (Inl e) \<and> isUnableToResolveError e \<and>
          \<not> shouldThrowOnUnresolvedErrors R (entryPath R) (platform R)"
  with assms show "resolveDependency R c fm n = (Some (Inr None), c)"
    by (simp add: resolveDependency_def)
qed

text \<open>A request whose policy hook tolerates unresolved dependencies.\<close>

definition exampleTolerant :: request where
  "exampleTolerant =
     (exampleRequest [''/root/b.js''] [''/'', ''/root''])
       \<lparr> shouldThrowOnUnresolvedErrors := (\<lambda>entry pf. False) \<rparr>"


theorem memo_stores_resolved_module_witness:
  "Map.empty (resolutionHash (lib exampleTolerant) (module_path (Module ''/root/a.js'')) ''./b'') = None \<and>
   deprecatedAssetMap exampleTolerant (Module ''/root/a.js'') ''./b'' = None \<and>
   pipeline exampleTolerant (Module ''/root/a.js'') ''./b'' = Some (Inr (Module ''/root/b.js'')) \<and>
   resolveDependency exampleTolerant Map.empty (Module ''/root/a.js'') ''./b'' =
     (Some (Inr (Some (Module ''/root/b.js''))),
      [resolutionHash (lib exampleTolerant) (module_path (Module ''/root/a.js'')) ''./b''
         \<mapsto> Module ''/root/b.js'']) \<and>
   fst (resolveDependency (exampleRequest [] [])
          (session exampleTolerant
             (snd (resolveDependency exampleTolerant Map.empty (Module ''/root/a.js'') ''./b''))
             [(Module ''/root/a.js'', ''./missing'')])
          (Module ''/root/a.js'') ''./b'')
     = Some (Inr (Some (Module ''/root/b.js'')))"
proof -
  have h1: "Map.empty (resolutionHash (lib exampleTolerant) (module_path (Module ''/root/a.js'')) ''./b'') = None"
    by simp
  have h2: "deprecatedAssetMap exampleTolerant (Module ''/root/a.js'') ''./b'' = None"
    by (simp add: exampleTolerant_def exampleRequest_def)
  have p: "pipeline exampleTolerant (Module ''/root/a.js'') ''./b'' = Some (Inr (Module ''/root/b.js''))"
    by (simp add: example_simps exampleTolerant_def packageLoop_stop packageLoop_next
          isPackage_def)
  have l: "lib (exampleRequest [] []) = lib exampleTolerant"
    by (simp add: exampleTolerant_def exampleRequest_def)
  note inst = memo_stores_resolved_module
    [OF h1 h2, of "Module ''/root/b.js''" undefined, THEN conjunct1, rule_format, OF p]
  from inst [THEN conjunct1]
  have first: "resolveDependency exampleTolerant Map.empty (Module ''/root/a.js'') ''./b'' =
     (Some (Inr (Some (Module ''/root/b.js''))),
      [resolutionHash (lib exampleTolerant) (module_path (Module ''/root/a.js'')) ''./b''
         \<mapsto> Module ''/root/b.js''])" .
  from inst [THEN conjunct2, rule_format, OF l, of "[(Module ''/root/a.js'', ''./missing'')]"]
  have later: "fst (resolveDependency (exampleRequest [] [])
          (session exampleTolerant
             (snd (resolveDependency exampleTolerant Map.empty (Module ''/root/a.js'') ''./b''))
             [(Module ''/root/a.js'', ''./missing'')])
          (Module ''/root/a.js'') ''./b'')
     = Some (Inr (Some (Module ''/root/b.js'')))"
    by (simp add: Let_def)
  from h1 h2 p first later show ?thesis by blast
qed

text \<open>
  A tolerated \<open>null\<close> is not stored: after the call the memo has no entry for the pair,
  and a later call runs the pipeline again (it finds the file created in between).
\<close>

theorem tolerated_null_not_stored_counterexample:
  "fst (resolveDependency exampleTolerant Map.empty (Module ''/root/a.js'') ''./missing'')
     = Some (Inr None) \<and>
   snd (resolveDependency exampleTolerant Map.empty (Module ''/root/a.js'') ''./missing'')
     (resolutionHash (lib exampleTolerant) ''/root/a.js'' ''./missing'') = None \<and>
   fst (resolveDependency
          (exampleRequest [''/root/missing.js''] [''/'', ''/root''])
          (snd (resolveDependency exampleTolerant Map.empty (Module ''/root/a.js'') ''./missing''))
          (Module ''/root/a.js'') ''./missing'')
     = Some (Inr (Some (Module ''/root/missing.js'')))"
  by (simp add: example_simps exampleTolerant_def packageLoop_stop packageLoop_next
        isPackage_def)

text \<open>
  C9, as the code has it. The memo is consulted first. When it has no entry for the key
  of the pair and the deprecated asset map yields a match, the match is returned and the
  memo is left as it was, whatever the pipeline would do; when the memo has an entry, the
  entry is returned.
\<close>

theorem deprecated_asset_after_memo:
  "(c (resolutionHash (lib R) (module_path fm) n) = None \<and>
    deprecatedAssetMap R fm n = Some asset \<longrightarrow>
      resolveDependency R c fm n = (Some (Inr (Some asset)), c)) \<and>
   (c (resolutionHash (lib R) (module_path fm) n) = Some m \<longrightarrow>
      resolveDependency R c fm n = (Some (Inr (Some m)), c))"
  by (simp add: resolveDependency_def)

text \<open>A request whose deprecated asset map matches \<open>c\<close> required from
  \<open>/root/a:b\<close>.\<close>

definition exampleAssets :: request where
  "exampleAssets =
     (exampleRequest [''/root/node_modules/b:c.js''] [''/'', ''/root'', ''/root/node_modules''])
       \<lparr> deprecatedAssetMap :=
           (\<lambda>fromModule name.
              if fromModule = Module ''/root/a:b'' \<and> name = ''c''
              then Some (AssetModule_DEPRECATED ''/root/img/c.png'') else None) \<rparr>"

theorem deprecated_asset_after_memo_witness:
  "Map.empty (resolutionHash (lib exampleAssets) (module_path (Module ''/root/a:b'')) ''c'') = None \<and>
   deprecatedAssetMap exampleAssets (Module ''/root/a:b'') ''c''
     = Some (AssetModule_DEPRECATED ''/root/img/c.png'') \<and>
   fst (resolveDependency exampleAssets Map.empty (Module ''/root/a:b'') ''c'')
     = Some (Inr (Some (AssetModule_DEPRECATED ''/root/img/c.png''))) \<and>
   [resolutionHash (lib exampleAssets) (module_path (Module ''/root/a:b'')) ''c'' \<mapsto> Module ''/x'']
     (resolutionHash (lib exampleAssets) (module_path (Module ''/root/a:b'')) ''c'') = Some (Module ''/x'') \<and>
   fst (resolveDependency exampleAssets
     [resolutionHash (lib exampleAssets) (module_path (Module ''/root/a:b'')) ''c'' \<mapsto> Module ''/x'']
     (Module ''/root/a:b'') ''c'') = Some (Inr (Some (Module ''/x'')))"
proof -
  have h1: "Map.empty (resolutionHash (lib exampleAssets) (module_path (Module ''/root/a:b'')) ''c'') = None"
    by simp
  have h2: "deprecatedAssetMap exampleAssets (Module ''/root/a:b'') ''c''
     = Some (AssetModule_DEPRECATED ''/root/img/c.png'')"
    by (simp add: exampleAssets_def exampleRequest_def)
  have h3: "[resolutionHash (lib exampleAssets) (module_path (Module ''/root/a:b'')) ''c'' \<mapsto> Module ''/x'']
     (resolutionHash (lib exampleAssets) (module_path (Module ''/root/a:b'')) ''c'') = Some (Module ''/x'')"
    by simp
  from deprecated_asset_after_memo [of Map.empty exampleAssets "Module ''/root/a:b''" "''c''",
        THEN conjunct1, rule_format, OF conjI [OF h1 h2]]
  have a: "fst (resolveDependency exampleAssets Map.empty (Module ''/root/a:b'') ''c'')
     = Some (Inr (Some (AssetModule_DEPRECATED ''/root/img/c.png'')))"
    by simp
  from deprecated_asset_after_memo
         [of "[resolutionHash (lib exampleAssets) (module_path (Module ''/root/a:b'')) ''c'' \<mapsto> Module ''/x'']"
             exampleAssets "Module ''/root/a:b''" "''c''" undefined "Module ''/x''",
          THEN conjunct2, rule_format, OF h3]
  have b: "fst (resolveDependency exampleAssets
     [resolutionHash (lib exampleAssets) (module_path (Module ''/root/a:b'')) ''c'' \<mapsto> Module ''/x'']
     (Module ''/root/a:b'') ''c'') = Some (Inr (Some (Module ''/x'')))"
    by simp
  from h1 h2 h3 a b show ?thesis by blast
qed

text \<open>
  After \<open>b:c\<close> required from \<open>/root/a\<close> has been resolved and stored under the key
  \<open>/root/a:b:c\<close>, the call for \<open>c\<close> required from \<open>/root/a:b\<close>, which has the same
  key, returns the stored module and not the match of the deprecated asset map.
\<close>

theorem memo_before_deprecated_asset_counterexample:
  "deprecatedAssetMap exampleAssets (Module ''/root/a:b'') ''c''
     = Some (AssetModule_DEPRECATED ''/root/img/c.png'') \<and>
   fst (resolveDependency exampleAssets Map.empty (Module ''/root/a'') ''b:c'')
     = Some (Inr (Some (Module ''/root/node_modules/b:c.js''))) \<and>
   fst (resolveDependency exampleAssets
          (snd (resolveDependency exampleAssets Map.empty (Module ''/root/a'') ''b:c''))
          (Module ''/root/a:b'') ''c'')
     = Some (Inr (Some (Module ''/root/node_modules/b:c.js'')))"
  by (simp add: example_simps exampleAssets_def packageLoop_stop packageLoop_next
        isPackage_def)


section \<open>The graph collector\<close>

text \<open>
  \<open>collect(mod)\<close> returns a promise. While its last callback has not run the promise is
  \<open>Pending\<close>; after it, the promise stands for the array of the pairs
  \<open>[modDep, collect(modDep)]\<close> (or \<open>[modDep, []]\<close> when \<open>recursive\<close> is off), one for
  each new dependency, whose second components are promises again.
\<close>

datatype task = Pending module | Collected "(module \<times> task) list"

text \<open>The values \<open>recursiveFlatten\<close> works on: modules and (nested) arrays.\<close>

datatype jsval = Item module | Array "jsval list"

fun recursiveFlatten :: "jsval list \<Rightarrow> module list" where
  "recursiveFlatten [] = []"
| "recursiveFlatten (Item m # array) = m # recursiveFlatten array"
| "recursiveFlatten (Array item # array) = recursiveFlatten item @ recursiveFlatten array"

text \<open>The array a promise of \<open>collect\<close> is fulfilled with, once nothing below it is
  pending.\<close>

fun settledValue :: "task \<Rightarrow> jsval list option"
  and settledValues :: "(module \<times> task) list \<Rightarrow> jsval list option" where
  "settledValue (Pending m) = None"
| "settledValue (Collected children) = settledValues children"
| "settledValues [] = Some []"
| "settledValues ((modDep, t) # children) =
     (case settledValue t of
        None \<Rightarrow> None
      | Some v \<Rightarrow>
          (case settledValues children of
             None \<Rightarrow> None
           | Some vs \<Rightarrow> Some (Array [Item modDep, Array v] # vs)))"

text \<open>The arguments of \<open>getOrderedDependencies\<close>: \<open>onProgress\<close> tells whether a callback
  was given; \<open>transformOptions\<close> is only handed on to \<open>getDependencies\<close>.\<close>

record options =
  mocksPattern :: "string option"
  recursive :: bool
  onProgress :: bool

text \<open>
  The state of one call of \<open>getOrderedDependencies\<close>: the memo of the request, the
  variables \<open>mocks\<close>, \<open>visited\<close>, \<open>totalModules\<close> and \<open>finishedModules\<close> of the
  closure, and the response. \<open>progress\<close> logs the calls of \<open>onProgress\<close>, and
  \<open>discovered\<close> logs the modules in the order in which \<open>visited[hash] = true\<close> is
  executed for them.
\<close>

record build =
  immediateResolutionCache :: cache
  mocks :: "string \<rightharpoonup> string"
  visited :: "string set"
  response_dependencies :: "module list"
  response_resolvedDependencyPairs :: "module \<rightharpoonup> (string \<times> module) list"
  response_mocks :: "(string \<rightharpoonup> string) option"
  totalModules :: nat
  finishedModules :: nat
  progress :: "(nat \<times> nat) list"
  discovered :: "module list"

text \<open>
  Modelled from the spec: the \<open>Response\<close> accumulator, whose class is not part of
  \<open>ResolutionRequest.js\<close>. It holds an ordered sequence of modules to which
  \<open>pushDependency\<close> appends, a mapping from a module to its list of resolved pairs that
  \<open>setResolvedDependencyPairs\<close> sets, and the final mock table that \<open>setMocks\<close>
  sets.
\<close>

definition pushDependency :: "module \<Rightarrow> build \<Rightarrow> build" where
  "pushDependency dep b = b\<lparr> response_dependencies := response_dependencies b @ [dep] \<rparr>"

definition setResolvedDependencyPairs ::
  "module \<Rightarrow> (string \<times> module) list \<Rightarrow> build \<Rightarrow> build" where
  "setResolvedDependencyPairs m pairs b =
     b\<lparr> response_resolvedDependencyPairs := (response_resolvedDependencyPairs b)(m \<mapsto> pairs) \<rparr>"

definition setMocks :: "(string \<rightharpoonup> string) \<Rightarrow> build \<Rightarrow> build" where
  "setMocks m b = b\<lparr> response_mocks := Some m \<rparr>"

text \<open>\<open>if (s)\<close> for a string that may be undefined.\<close>

definition truthy :: "string option \<Rightarrow> bool" where
  "truthy s = (case s of Some v \<Rightarrow> v \<noteq> [] | None \<Rightarrow> False)"

text \<open>\<open>_getAllMocks\<close>.\<close>

definition getAllMocks :: "request \<Rightarrow> string option \<Rightarrow> (string \<rightharpoonup> string) option" where
  "getAllMocks R pattern =
     (if truthy pattern then
        Some (foldl (\<lambda>mocks file.
                       mocks(path_basename (lib R) file (path_extname (lib R) file) \<mapsto> file))
                Map.empty (matchFilesByPattern (fastfs R) (the pattern)))
      else None)"

text \<open>
  \<open>Promise.all\<close>: rejected as soon as one of the promises is rejected (the first one in
  the order of the list is taken), fulfilled with all values when all are fulfilled.
\<close>

fun promiseAll :: "'a promise list \<Rightarrow> 'a list promise" where
  "promiseAll [] = Some (Inr [])"
| "promiseAll (p # ps) =
     (case p of
        Some (Inl error) \<Rightarrow> Some (Inl error)
      | None \<Rightarrow> (case promiseAll ps of Some (Inl error) \<Rightarrow> Some (Inl error) | _ \<Rightarrow> None)
      | Some (Inr v) \<Rightarrow>
          (case promiseAll ps of
             Some (Inr vs) \<Rightarrow> Some (Inr (v # vs))
           | Some (Inl error) \<Rightarrow> Some (Inl error)
           | None \<Rightarrow> None))"

text \<open>
  \<open>depNames.map(name => this.resolveDependency(mod, name))\<close>: every call reads the memo
  before any of them writes it, since the writes happen in later turns.
\<close>

definition resolveAll ::
  "request \<Rightarrow> cache \<Rightarrow> module \<Rightarrow> string list \<Rightarrow> module option promise list \<times> cache" where
  "resolveAll R cache0 mod' depNames =
     (let outcomes = map (resolveDependency R cache0 mod') depNames
      in (map fst outcomes, foldl (\<lambda>c outcome. c ++ snd outcome) cache0 outcomes))"

text \<open>\<open>allMocks[name] && !mocks[name]\<close>.\<close>

definition hasFreeMock :: "(string \<rightharpoonup> string) \<Rightarrow> (string \<rightharpoonup> string) \<Rightarrow> string \<Rightarrow> bool" where
  "hasFreeMock allMocks mocks' name = (truthy (allMocks name) \<and> \<not> truthy (mocks' name))"

text \<open>The body of \<open>names.forEach\<close> in the second callback of \<open>collect\<close>, on the
  triple of \<open>depNames\<close>, \<open>dependencies\<close> and \<open>mocks\<close>.\<close>

definition mergeMock ::
  "(string \<rightharpoonup> string) \<Rightarrow> string list \<times> module option list \<times> (string \<rightharpoonup> string) \<Rightarrow> string \<Rightarrow>
   string list \<times> module option list \<times> (string \<rightharpoonup> string)" where
  "mergeMock allMocks state name =
     (case state of (depNames, dependencies, mocks') \<Rightarrow>
        if hasFreeMock allMocks mocks' name then
          (let mockModule = Module (the (allMocks name))
           in (depNames @ [name], dependencies @ [Some mockModule],
               mocks'(name \<mapsto> the (allMocks name))))
        else (depNames, dependencies, mocks'))"

text \<open>The \<open>list\<close> of the second callback: the name of the module and of its package.\<close>

definition mockNames :: "request \<Rightarrow> module \<Rightarrow> string promise list" where
  "mockNames R mod' =
     (let list = [Some (module_getName (moduleCache R) mod')]
      in case module_getPackage (moduleCache R) mod' of
           Some pkg \<Rightarrow> list @ [Some (package_getName (moduleCache R) pkg)]
         | None \<Rightarrow> list)"

text \<open>The body of \<open>dependencies.forEach\<close> in the third callback, on the pair of
  \<open>filteredPairs\<close> and \<open>mocks\<close>.\<close>

definition filterPair ::
  "(string \<rightharpoonup> string) option \<Rightarrow> (string \<times> module) list \<times> (string \<rightharpoonup> string) \<Rightarrow>
   string \<times> module option \<Rightarrow> (string \<times> module) list \<times> (string \<rightharpoonup> string)" where
  "filterPair allMocks state dep =
     (case (state, dep) of ((filteredPairs, mocks'), (name, modDep)) \<Rightarrow>
        (case modDep of
           None \<Rightarrow>
             if allMocks \<noteq> None \<and> hasFreeMock (the allMocks) mocks' name then
               (let mockModule = Module (the (the allMocks name))
                in (filteredPairs @ [(name, mockModule)],
                    mocks'(name \<mapsto> the (the allMocks name))))
             else (filteredPairs, mocks')
         | Some m \<Rightarrow> (filteredPairs @ [(name, m)], mocks')))"

text \<open>
  \<open>collect\<close>, with its second callback (\<open>collectMocks\<close>) and its third
  (\<open>collectPairs\<close>) named. The third callback runs in one turn; it yields the pairs
  \<open>[modDep, collect(modDep)]\<close>, the new promises still pending. The three callbacks of one
  module are taken as one step.
\<close>

definition collectMocks ::
  "request \<Rightarrow> (string \<rightharpoonup> string) option \<Rightarrow> build \<Rightarrow> module \<Rightarrow> string list \<Rightarrow>
   module option list \<Rightarrow> (string list \<times> module option list \<times> (string \<rightharpoonup> string)) promise" where
  "collectMocks R allMocks b mod' depNames dependencies =
     (case allMocks of
        Some am \<Rightarrow>
          thenP (promiseAll (mockNames R mod'))
            (\<lambda>names. Some (Inr (foldl (mergeMock am) (depNames, dependencies, mocks b) names)))
      | None \<Rightarrow> Some (Inr (depNames, dependencies, mocks b)))"

definition collectPairs ::
  "request \<Rightarrow> options \<Rightarrow> (string \<rightharpoonup> string) option \<Rightarrow> build \<Rightarrow> module \<Rightarrow> cache \<Rightarrow>
   string list \<times> module option list \<times> (string \<rightharpoonup> string) \<Rightarrow> (module \<times> task) list \<times> build" where
  "collectPairs R opts allMocks b mod' cache' merged =
     (case merged of (depNames, dependencies, mocks1) \<Rightarrow>
        let (filteredPairs, mocks2) =
              foldl (filterPair allMocks) ([], mocks1) (zip depNames dependencies);
            newDependencies =
              filter (\<lambda>(name, modDep). module_hash (moduleCache R) modDep \<notin> visited b)
                filteredPairs;
            finished = (if onProgress opts then finishedModules b + 1 else finishedModules b);
            total = (if onProgress opts then totalModules b + length newDependencies
                     else totalModules b)
        in (map (\<lambda>(depName, modDep).
                   (modDep, if recursive opts then Pending modDep else Collected []))
              newDependencies,
            (setResolvedDependencyPairs mod' filteredPairs b)
              \<lparr> immediateResolutionCache := cache',
                mocks := mocks2,
                finishedModules := finished,
                totalModules := total,
                progress := (if onProgress opts then progress b @ [(finished, total)]
                             else progress b),
                visited := visited b \<union>
                  set (map (\<lambda>(depName, modDep). module_hash (moduleCache R) modDep)
                         newDependencies),
                discovered := discovered b @ map snd newDependencies \<rparr>))"

definition collect ::
  "request \<Rightarrow> options \<Rightarrow> (string \<rightharpoonup> string) option \<Rightarrow> build \<Rightarrow> module \<Rightarrow>
   ((module \<times> task) list \<times> build) promise" where
  "collect R opts allMocks b mod' =
     thenP (Some (module_getDependencies (moduleCache R) mod'))
       (\<lambda>depNames.
          let (outcomes, cache') = resolveAll R (immediateResolutionCache b) mod' depNames
          in thenP (promiseAll outcomes)
               (\<lambda>dependencies.
                  thenP (collectMocks R allMocks b mod' depNames dependencies)
                    (\<lambda>merged.
                       Some (Inr (collectPairs R opts allMocks b mod' cache' merged)))))"

text \<open>
  The order in which the pending promises of different modules run their callbacks is
  decided by the timing of the file reads, not by the program. A schedule decides it
  here: at every step one number picks, among the pending promises (listed by their
  position in the tree), the one whose callbacks run next.
\<close>

fun pendingPaths :: "task \<Rightarrow> nat list list"
  and pendingPathsFrom :: "nat \<Rightarrow> (module \<times> task) list \<Rightarrow> nat list list" where
  "pendingPaths (Pending m) = [[]]"
| "pendingPaths (Collected children) = pendingPathsFrom 0 children"
| "pendingPathsFrom i [] = []"
| "pendingPathsFrom i ((modDep, t) # children) =
     map ((#) i) (pendingPaths t) @ pendingPathsFrom (Suc i) children"

fun fireAt ::
  "(build \<Rightarrow> module \<Rightarrow> ((module \<times> task) list \<times> build) promise) \<Rightarrow>
   nat list \<Rightarrow> task \<Rightarrow> build \<Rightarrow> (task \<times> build) promise" where
  "fireAt callback [] (Pending m) b =
     thenP (callback b m) (\<lambda>(children, b'). Some (Inr (Collected children, b')))"
| "fireAt callback (i # path) (Collected children) b =
     (if i < length children then
        thenP (fireAt callback path (snd (children ! i)) b)
          (\<lambda>(t', b'). Some (Inr (Collected (children[i := (fst (children ! i), t')]), b')))
      else Some (Inr (Collected children, b)))"
| "fireAt callback path t b = Some (Inr (t, b))"

fun run ::
  "(build \<Rightarrow> module \<Rightarrow> ((module \<times> task) list \<times> build) promise) \<Rightarrow>
   nat list \<Rightarrow> task \<times> build \<Rightarrow> (task \<times> build) promise" where
  "run callback [] (t, b) = Some (Inr (t, b))"
| "run callback (pick # schedule) (t, b) =
     (case pendingPaths t of
        [] \<Rightarrow> Some (Inr (t, b))
      | paths \<Rightarrow>
          thenP (fireAt callback (paths ! (pick mod length paths)) t b)
            (run callback schedule))"

text \<open>
  \<open>getOrderedDependencies\<close>: \<open>initialBuild\<close> is the state before \<open>collect(entry)\<close>,
  \<open>collectEntry\<close> the promise \<open>collect(entry)\<close> after the steps of the schedule, and the
  last callback pushes the flattened array when that promise is fulfilled. The result is
  \<open>None\<close> while a promise is still pending after the schedule.
\<close>

definition initialBuild :: "request \<Rightarrow> cache \<Rightarrow> build" where
  "initialBuild R cache0 =
     (let entry = Module (entryPath R)
      in pushDependency entry
           \<lparr> immediateResolutionCache = cache0, mocks = Map.empty,
             visited = {module_hash (moduleCache R) entry},
             response_dependencies = [],
             response_resolvedDependencyPairs = Map.empty,
             response_mocks = None,
             totalModules = 1, finishedModules = 0, progress = [],
             discovered = [entry] \<rparr>)"

definition collectEntry ::
  "request \<Rightarrow> options \<Rightarrow> cache \<Rightarrow> nat list \<Rightarrow> (task \<times> build) promise" where
  "collectEntry R opts cache0 schedule =
     run (collect R opts (getAllMocks R (mocksPattern opts))) schedule
       (Pending (Module (entryPath R)), initialBuild R cache0)"

definition getOrderedDependencies ::
  "request \<Rightarrow> options \<Rightarrow> cache \<Rightarrow> nat list \<Rightarrow> build promise" where
  "getOrderedDependencies R opts cache0 schedule =
     thenP (collectEntry R opts cache0 schedule)
       (\<lambda>(t, b).
          case settledValue t of
            None \<Rightarrow> None
          | Some deps \<Rightarrow>
              Some (Inr (setMocks (mocks b)
                           (foldl (\<lambda>b dep. pushDependency dep b) b
                              (recursiveFlatten deps)))))"

subsection \<open>Examples\<close>

text \<open>A request over files in \<open>/root\<close> with the given dependency names for each file.\<close>

definition exampleGraph :: "string list \<Rightarrow> (string \<times> string list) list \<Rightarrow> request" where
  "exampleGraph files requires =
     (exampleRequest files [''/'', ''/root''])
       \<lparr> moduleCache := (moduleCache (exampleRequest files [''/'', ''/root'']))
           \<lparr> module_getDependencies :=
               (\<lambda>m. case map_of requires (module_path m) of
                       Some names \<Rightarrow> Inr names
                     | None \<Rightarrow> Inr []) \<rparr> \<rparr>"

definition exampleOptions :: options where
  "exampleOptions = \<lparr> mocksPattern = None, recursive = True, onProgress = True \<rparr>"


text \<open>The module sequence of the response, and the log of discoveries.\<close>

definition moduleSequence :: "build promise \<Rightarrow> (error + module list) option" where
  "moduleSequence p = map_option (map_sum id response_dependencies) p"

definition discoveryOrder :: "build promise \<Rightarrow> (error + module list) option" where
  "discoveryOrder p = map_option (map_sum id discovered) p"

text \<open>\<open>a\<close> requires \<open>b\<close> and \<open>c\<close>, and \<open>b\<close> requires \<open>d\<close>.\<close>

definition graph7 :: request where
  "graph7 = exampleGraph [''/root/a.js'', ''/root/b.js'', ''/root/c.js'', ''/root/d.js'']
     [(''/root/a.js'', [''./b'', ''./c'']), (''/root/b.js'', [''./d''])]"

text \<open>\<open>a\<close> requires \<open>b\<close> under two names, and \<open>b\<close> requires \<open>a\<close>.\<close>

definition graph8 :: request where
  "graph8 = exampleGraph [''/root/a.js'', ''/root/b.js'']
     [(''/root/a.js'', [''./b'', ''./b.js'']), (''/root/b.js'', [''./a''])]"


subsection \<open>The order of the module sequence\<close>

text \<open>The depth-first pre-order listing of the modules of a tree of promises.\<close>

fun spec_preorder :: "task \<Rightarrow> module list"
  and spec_preorderList :: "(module \<times> task) list \<Rightarrow> module list" where
  "spec_preorder (Pending m) = []"
| "spec_preorder (Collected children) = spec_preorderList children"
| "spec_preorderList [] = []"
| "spec_preorderList ((modDep, t) # children) =
     modDep # spec_preorder t @ spec_preorderList children"

lemma flatten_preorder:
  "settledValue t = Some v \<Longrightarrow> recursiveFlatten v = spec_preorder t"
  "settledValues children = Some vs \<Longrightarrow> recursiveFlatten vs = spec_preorderList children"
  by (induction t and children arbitrary: v and vs rule: settledValue_settledValues.induct)
     (auto split: option.splits)

lemma settled_iff:
  "(settledValue t = None) = (pendingPaths t \<noteq> [])"
  "(settledValues children = None) = (pendingPathsFrom i children \<noteq> [])"
  by (induction t and children arbitrary: and i rule: settledValue_settledValues.induct)
     (auto split: option.splits)

lemma push_all:
  "response_dependencies (foldl (\<lambda>b dep. pushDependency dep b) b deps) =
   response_dependencies b @ deps"
  by (induction deps arbitrary: b) (simp_all add: pushDependency_def)


lemma thenP_Inr:
  "thenP p f = Some (Inr y) \<Longrightarrow> \<exists>x. p = Some (Inr x) \<and> f x = Some (Inr y)"
  by (auto simp: thenP_def split: option.splits sum.splits)

lemma collect_effect:
  assumes "collect R opts allMocks b m = Some (Inr result)"
  shows "\<exists>depNames dependencies merged.
           module_getDependencies (moduleCache R) m = Inr depNames \<and>
           promiseAll (fst (resolveAll R (immediateResolutionCache b) m depNames)) =
             Some (Inr dependencies) \<and>
           collectMocks R allMocks b m depNames dependencies = Some (Inr merged) \<and>
           result = collectPairs R opts allMocks b m
                      (snd (resolveAll R (immediateResolutionCache b) m depNames)) merged"
  using assms
  by (auto simp: collect_def split_beta dest!: thenP_Inr)


lemma fireAt_preserves:
  assumes step: "\<And>b m children b'. callback b m = Some (Inr (children, b')) \<Longrightarrow> Q b b'"
    and refl: "\<And>b. Q b b"
  shows "fireAt callback path t b = Some (Inr (t', b')) \<Longrightarrow> Q b b'"
proof (induction path arbitrary: t t' b')
  case Nil
  show ?case
  proof (cases t)
    case (Pending m)
    with Nil obtain children where "callback b m = Some (Inr (children, b'))"
      by (auto dest!: thenP_Inr)
    then show ?thesis by (rule step)
  next
    case (Collected children)
    with Nil show ?thesis by (simp add: refl)
  qed
next
  case (Cons i path)
  show ?case
  proof (cases t)
    case (Pending m)
    with Cons.prems show ?thesis by (simp add: refl)
  next
    case (Collected children)
    show ?thesis
    proof (cases "i < length children")
      case True
      with Cons.prems Collected obtain t'' where
        "fireAt callback path (snd (children ! i)) b = Some (Inr (t'', b'))"
        by (auto dest!: thenP_Inr)
      then show ?thesis by (rule Cons.IH)
    next
      case False
      with Cons.prems Collected show ?thesis by (simp add: refl)
    qed
  qed
qed

lemma run_preserves:
  assumes step: "\<And>b m children b'. callback b m = Some (Inr (children, b')) \<Longrightarrow> Q b b'"
    and refl: "\<And>b. Q b b"
    and trans: "\<And>a b c. Q a b \<Longrightarrow> Q b c \<Longrightarrow> Q a c"
  shows "run callback schedule (t, b) = Some (Inr (t', b')) \<Longrightarrow> Q b b'"
proof (induction schedule arbitrary: t b)
  case Nil
  then show ?case by (simp add: refl)
next
  case (Cons pick schedule)
  show ?case
  proof (cases "pendingPaths t")
    case Nil
    with Cons.prems show ?thesis by (simp add: refl)
  next
    case (Cons p ps)
    with Cons.prems obtain t1 b1 where
      f: "fireAt callback ((p # ps) ! (pick mod length (p # ps))) t b = Some (Inr (t1, b1))"
      and r: "run callback schedule (t1, b1) = Some (Inr (t', b'))"
      by (auto dest!: thenP_Inr)
    from fireAt_preserves [of callback Q, OF step refl f] have "Q b b1" .
    moreover from Cons.IH [OF r] have "Q b1 b'" .
    ultimately show ?thesis by (rule trans)
  qed
qed

lemma collect_response_dependencies:
  "collect R opts allMocks b m = Some (Inr (children, b')) \<Longrightarrow>
   response_dependencies b' = response_dependencies b"
  by (drule collect_effect)
     (auto simp: collectPairs_def split_beta Let_def setResolvedDependencyPairs_def)

lemma collectEntry_response_dependencies:
  assumes "collectEntry R opts cache0 schedule = Some (Inr (t, b))"
  shows "response_dependencies b = [Module (entryPath R)]"
proof -
  have "response_dependencies b = response_dependencies (initialBuild R cache0)"
    by (rule run_preserves
          [where Q = "\<lambda>b b'. response_dependencies b' = response_dependencies b",
           OF _ _ _ assms [unfolded collectEntry_def]])
       (simp_all add: collect_response_dependencies)
  then show ?thesis by (simp add: initialBuild_def pushDependency_def Let_def)
qed


text \<open>The module of the pending promise at a position, and the tree with the promise at a
  position replaced.\<close>

fun pendingAt :: "nat list \<Rightarrow> task \<Rightarrow> module option" where
  "pendingAt [] (Pending m) = Some m"
| "pendingAt (i # path) (Collected children) =
     (if i < length children then pendingAt path (snd (children ! i)) else None)"
| "pendingAt path t = None"

fun replaceAt :: "nat list \<Rightarrow> task \<Rightarrow> task \<Rightarrow> task" where
  "replaceAt [] new t = new"
| "replaceAt (i # path) new (Collected children) =
     (if i < length children
        then Collected (children[i := (fst (children ! i), replaceAt path new (snd (children ! i)))])
      else Collected children)"
| "replaceAt (i # path) new (Pending m) = Pending m"

lemma fireAt_pendingAt:
  "pendingAt path t = Some m \<Longrightarrow>
   fireAt callback path t b =
   thenP (callback b m) (\<lambda>(children, b'). Some (Inr (replaceAt path (Collected children) t, b')))"
proof (induction path arbitrary: t)
  case Nil
  then show ?case by (cases t) simp_all
next
  case (Cons i path)
  show ?case
  proof (cases t)
    case (Pending m')
    with Cons.prems show ?thesis by simp
  next
    case (Collected children)
    with Cons.prems have i: "i < length children"
      and p: "pendingAt path (snd (children ! i)) = Some m"
      by (simp_all split: if_splits)
    show ?thesis
      unfolding Collected
      by (simp add: i Cons.IH [OF p] thenP_def split: option.splits sum.splits prod.splits)
  qed
qed

lemma pendingPaths_pendingAt:
  "p \<in> set (pendingPaths t) \<Longrightarrow> \<exists>m. pendingAt p t = Some m"
  "p \<in> set (pendingPathsFrom i children) \<Longrightarrow>
     \<exists>j q m. p = (i + j) # q \<and> j < length children \<and>
             pendingAt q (snd (children ! j)) = Some m"
proof (induction t and i children arbitrary: p and p rule: pendingPaths_pendingPathsFrom.induct)
  case (1 m)
  then show ?case by simp
next
  case (2 children)
  from "2.prems" have "p \<in> set (pendingPathsFrom 0 children)" by simp
  from "2.IH" [OF this] show ?case by auto
next
  case (3 i)
  then show ?case by simp
next
  case (4 i modDep t children)
  from "4.prems" consider
    (head) q where "p = i # q" "q \<in> set (pendingPaths t)"
    | (tail) "p \<in> set (pendingPathsFrom (Suc i) children)"
    by auto
  then show ?case
  proof cases
    case head
    from "4.IH"(1) [OF head(2)] obtain m where "pendingAt q t = Some m" ..
    with head(1) have "p = (i + 0) # q \<and> 0 < length ((modDep, t) # children) \<and>
      pendingAt q (snd (((modDep, t) # children) ! 0)) = Some m"
      by simp
    then show ?thesis by blast
  next
    case tail
    from "4.IH"(2) [OF tail] obtain j q m where
      "p = (Suc i + j) # q" "j < length children" "pendingAt q (snd (children ! j)) = Some m"
      by blast
    then have "p = (i + Suc j) # q \<and> Suc j < length ((modDep, t) # children) \<and>
      pendingAt q (snd (((modDep, t) # children) ! Suc j)) = Some m"
      by simp
    then show ?thesis by blast
  qed
qed


lemma collect_discovered:
  "collect R opts allMocks b m = Some (Inr (children, b')) \<Longrightarrow>
   discovered b' = discovered b @ map fst children"
  by (drule collect_effect)
     (auto simp: collectPairs_def split_beta Let_def setResolvedDependencyPairs_def comp_def)

lemma moduleSequence_preorder:
  "moduleSequence (getOrderedDependencies R opts cache0 schedule) =
     (case collectEntry R opts cache0 schedule of
        None \<Rightarrow> None
      | Some (Inl error) \<Rightarrow> Some (Inl error)
      | Some (Inr (tree, final)) \<Rightarrow>
          if pendingPaths tree = []
          then Some (Inr (Module (entryPath R) # spec_preorder tree))
          else None)"
proof (cases "collectEntry R opts cache0 schedule")
  case None
  then show ?thesis
    by (simp add: getOrderedDependencies_def thenP_def moduleSequence_def)
next
  case (Some r)
  show ?thesis
  proof (cases r)
    case (Inl error)
    with Some show ?thesis
      by (simp add: getOrderedDependencies_def thenP_def moduleSequence_def)
  next
    case (Inr cfg)
    obtain tree final where cfg: "cfg = (tree, final)" by (cases cfg)
    from Some Inr cfg have run: "collectEntry R opts cache0 schedule = Some (Inr (tree, final))"
      by simp
    note deps = collectEntry_response_dependencies [OF run]
    show ?thesis
    proof (cases "settledValue tree")
      case None
      with run settled_iff(1) [of tree] show ?thesis
        by (simp add: getOrderedDependencies_def thenP_def moduleSequence_def)
    next
      case (Some v)
      with settled_iff(1) [of tree] have "pendingPaths tree = []" by simp
      with run Some flatten_preorder(1) [OF Some] deps show ?thesis
        by (simp add: getOrderedDependencies_def thenP_def moduleSequence_def push_all
              setMocks_def)
    qed
  qed
qed

text \<open>
  C7, as the code has it. The module sequence is ordered depth-first by discovery. A step
  puts the modules it discovers (marks visited), in that order, as the children of the
  module whose callbacks ran; and when \<open>collect(entry)\<close> is fulfilled the sequence is the
  entry module followed by the pre-order listing of this tree: every module is followed
  by all that was discovered through it before the next module discovered by the same
  requester.
\<close>

theorem module_sequence_is_preorder:
  "(pendingAt path t = Some m \<longrightarrow>
      fireAt (collect R opts allMocks) path t b =
        thenP (collect R opts allMocks b m)
          (\<lambda>(children, b'). Some (Inr (replaceAt path (Collected children) t, b')))) \<and>
   map_option (map_sum id (\<lambda>(children, b'). discovered b')) (collect R opts allMocks b m) =
     map_option (map_sum id (\<lambda>(children, b'). discovered b @ map fst children))
       (collect R opts allMocks b m) \<and>
   moduleSequence (getOrderedDependencies R opts cache0 schedule) =
     (case collectEntry R opts cache0 schedule of
        None \<Rightarrow> None
      | Some (Inl error) \<Rightarrow> Some (Inl error)
      | Some (Inr (tree, final)) \<Rightarrow>
          if pendingPaths tree = []
          then Some (Inr (Module (entryPath R) # spec_preorder tree))
          else None)"
proof (intro conjI impI)
  assume "pendingAt path t = Some m"
  then show "fireAt (collect R opts allMocks) path t b =
        thenP (collect R opts allMocks b m)
          (\<lambda>(children, b'). Some (Inr (replaceAt path (Collected children) t, b')))"
    by (rule fireAt_pendingAt)
next
  show "map_option (map_sum id (\<lambda>(children, b'). discovered b')) (collect R opts allMocks b m) =
     map_option (map_sum id (\<lambda>(children, b'). discovered b @ map fst children))
       (collect R opts allMocks b m)"
  proof (cases "collect R opts allMocks b m")
    case None
    then show ?thesis by simp
  next
    case (Some r)
    then show ?thesis
      by (cases r) (auto dest: collect_discovered)
  qed
next
  show "moduleSequence (getOrderedDependencies R opts cache0 schedule) =
     (case collectEntry R opts cache0 schedule of
        None \<Rightarrow> None
      | Some (Inl error) \<Rightarrow> Some (Inl error)
      | Some (Inr (tree, final)) \<Rightarrow>
          if pendingPaths tree = []
          then Some (Inr (Module (entryPath R) # spec_preorder tree))
          else None)"
    by (rule moduleSequence_preorder)
qed

theorem module_sequence_is_preorder_witness:
  "pendingAt [] (Pending (Module ''/root/a.js'')) = Some (Module ''/root/a.js'') \<and>
   map_option (map_sum id (spec_preorder \<circ> fst))
     (collectEntry graph7 exampleOptions Map.empty [0, 0, 0, 0]) =
     Some (Inr [Module ''/root/b.js'', Module ''/root/d.js'', Module ''/root/c.js'']) \<and>
   moduleSequence (getOrderedDependencies graph7 exampleOptions Map.empty [0, 0, 0, 0]) =
     Some (Inr [Module ''/root/a.js'', Module ''/root/b.js'', Module ''/root/d.js'',
                Module ''/root/c.js''])"
proof -
  have tree: "map_option (map_sum id (\<lambda>cfg. (spec_preorder (fst cfg), pendingPaths (fst cfg))))
     (collectEntry graph7 exampleOptions Map.empty [0, 0, 0, 0]) =
     Some (Inr ([Module ''/root/b.js'', Module ''/root/d.js'', Module ''/root/c.js''], []))"
    by code_simp
  then obtain r where
    some: "collectEntry graph7 exampleOptions Map.empty [0, 0, 0, 0] = Some r"
    and r: "map_sum id (\<lambda>cfg. (spec_preorder (fst cfg), pendingPaths (fst cfg))) r =
            Inr ([Module ''/root/b.js'', Module ''/root/d.js'', Module ''/root/c.js''], [])"
    by auto
  from r obtain tree final where
    inr: "r = Inr (tree, final)"
    and pre: "spec_preorder tree = [Module ''/root/b.js'', Module ''/root/d.js'', Module ''/root/c.js'']"
    and settled: "pendingPaths tree = []"
    by (cases r) auto
  from some inr have
    run: "collectEntry graph7 exampleOptions Map.empty [0, 0, 0, 0] = Some (Inr (tree, final))"
    by simp
  have entry: "entryPath graph7 = ''/root/a.js''"
    by (simp add: graph7_def exampleGraph_def exampleRequest_def)
  from module_sequence_is_preorder
         [of "[]" "Pending (Module ''/root/a.js'')" "Module ''/root/a.js''"
             graph7 exampleOptions None undefined Map.empty "[0, 0, 0, 0]"]
  have "moduleSequence (getOrderedDependencies graph7 exampleOptions Map.empty [0, 0, 0, 0]) =
     Some (Inr [Module ''/root/a.js'', Module ''/root/b.js'', Module ''/root/d.js'',
                Module ''/root/c.js''])"
    by (simp add: run pre settled entry)
  moreover from run pre have "map_option (map_sum id (spec_preorder \<circ> fst))
     (collectEntry graph7 exampleOptions Map.empty [0, 0, 0, 0]) =
     Some (Inr [Module ''/root/b.js'', Module ''/root/d.js'', Module ''/root/c.js''])"
    by simp
  ultimately show ?thesis by simp
qed

text \<open>
  In \<open>graph7\<close> the module \<open>c\<close> is discovered before \<open>d\<close>, and \<open>d\<close> comes before
  \<open>c\<close> in the module sequence.
\<close>

theorem discovered_earlier_appears_later_counterexample:
  "discoveryOrder (getOrderedDependencies graph7 exampleOptions Map.empty [0, 0, 0, 0]) =
     Some (Inr [Module ''/root/a.js'', Module ''/root/b.js'', Module ''/root/c.js'',
                Module ''/root/d.js'']) \<and>
   moduleSequence (getOrderedDependencies graph7 exampleOptions Map.empty [0, 0, 0, 0]) =
     Some (Inr [Module ''/root/a.js'', Module ''/root/b.js'', Module ''/root/d.js'',
                Module ''/root/c.js''])"
  by code_simp

text \<open>
  C8. \<open>newDependencies\<close> is filtered against \<open>visited\<close> before any of its modules is
  marked: a module that one module requires under two names is in it twice, is collected
  twice and is pushed twice, whatever the schedule.
\<close>

theorem module_required_twice_appears_twice:
  "moduleSequence (getOrderedDependencies graph8 exampleOptions Map.empty [0, 0, 0]) =
     Some (Inr [Module ''/root/a.js'', Module ''/root/b.js'', Module ''/root/b.js'']) \<and>
   moduleSequence (getOrderedDependencies graph8 exampleOptions Map.empty [0, 1, 0]) =
     Some (Inr [Module ''/root/a.js'', Module ''/root/b.js'', Module ''/root/b.js''])"
  by code_simp

subsection \<open>Unresolved dependencies\<close>

text \<open>
  The pre-order listing of a tree with its pending promises: \<open>Inl m\<close> for a module of
  the tree, \<open>Inr m\<close> for a pending promise \<open>collect(m)\<close>.
\<close>

fun events :: "task \<Rightarrow> (module + module) list"
  and eventsList :: "(module \<times> task) list \<Rightarrow> (module + module) list" where
  "events (Pending m) = [Inr m]"
| "events (Collected children) = eventsList children"
| "eventsList [] = []"
| "eventsList ((modDep, t) # children) = Inl modDep # events t @ eventsList children"

lemma eventsList_append: "eventsList (xs @ ys) = eventsList xs @ eventsList ys"
  by (induction xs) auto

lemma events_replaceAt:
  "pendingAt path t = Some m \<Longrightarrow>
   \<exists>pre post. events t = pre @ Inr m # post \<and>
              (\<forall>new. events (replaceAt path new t) = pre @ events new @ post)"
proof (induction path arbitrary: t)
  case Nil
  then have "t = Pending m" by (cases t) simp_all
  then have "events t = [] @ Inr m # [] \<and> (\<forall>new. events (replaceAt [] new t) = [] @ events new @ [])"
    by simp
  then show ?case by blast
next
  case (Cons i path)
  from Cons.prems obtain children where t: "t = Collected children"
    by (cases t) simp_all
  from Cons.prems t have i: "i < length children"
    and p: "pendingAt path (snd (children ! i)) = Some m"
    by (simp_all split: if_splits)
  obtain a ti where ci: "children ! i = (a, ti)" by (cases "children ! i")
  from Cons.IH [OF p] ci obtain pre post where
    ev: "events ti = pre @ Inr m # post"
    and rep: "\<forall>new. events (replaceAt path new ti) = pre @ events new @ post"
    by auto
  have split: "children = take i children @ (a, ti) # drop (Suc i) children"
    using i ci by (metis id_take_nth_drop)
  have "events t = (eventsList (take i children) @ Inl a # pre) @ Inr m # (post @ eventsList (drop (Suc i) children))"
    unfolding t by (subst split) (simp add: eventsList_append ev)
  moreover have "\<forall>new. events (replaceAt (i # path) new t) =
    (eventsList (take i children) @ Inl a # pre) @ events new @ (post @ eventsList (drop (Suc i) children))"
    unfolding t using i ci rep
    by (simp add: upd_conv_take_nth_drop eventsList_append)
  ultimately show ?case by blast
qed

lemma preorder_events:
  "spec_preorder t = [a. Inl a \<leftarrow> events t]"
  "spec_preorderList children = [a. Inl a \<leftarrow> eventsList children]"
  by (induction t and children rule: spec_preorder_spec_preorderList.induct) simp_all

lemma pendingPaths_events:
  "(pendingPaths t = []) = (\<forall>m. Inr m \<notin> set (events t))"
  "(pendingPathsFrom i children = []) = (\<forall>m. Inr m \<notin> set (eventsList children))"
  by (induction t and i children rule: pendingPaths_pendingPathsFrom.induct) auto


text \<open>
  A finite dependency graph, in the words of the specification: a set \<open>M\<close> of modules
  with distinct hashes that contains the entry module and, for every module of \<open>M\<close>
  and every dependency name it declares, the module the name resolves to, unless the
  resolution fails with \<open>UnableToResolveError\<close>; no collaborator fails otherwise.
\<close>

definition resolvesWithin :: "request \<Rightarrow> module set \<Rightarrow> module \<Rightarrow> string \<Rightarrow> bool" where
  "resolvesWithin R M m name =
     (case deprecatedAssetMap R m name of
        Some asset \<Rightarrow> asset \<in> M
      | None \<Rightarrow>
          (case pipeline R m name of
             None \<Rightarrow> False
           | Some (Inl error) \<Rightarrow> isUnableToResolveError error
           | Some (Inr target) \<Rightarrow> target \<in> M))"

definition closedGraph :: "request \<Rightarrow> (string \<rightharpoonup> string) option \<Rightarrow> module set \<Rightarrow> bool" where
  "closedGraph R allMocks M =
     (Module (entryPath R) \<in> M \<and>
      inj_on (module_hash (moduleCache R)) M \<and>
      (\<forall>m\<in>M. \<exists>names. module_getDependencies (moduleCache R) m = Inr names \<and>
                       (\<forall>name\<in>set names. resolvesWithin R M m name)) \<and>
      (\<forall>am. allMocks = Some am \<longrightarrow>
         (\<forall>name file. am name = Some file \<longrightarrow> Module file \<in> M) \<and>
         (\<forall>m\<in>M. \<exists>names. promiseAll (mockNames R m) = Some (Inr names))))"

lemma resolveDependency_within:
  assumes "resolvesWithin R M m n" and "ran c \<subseteq> M"
    and "\<not> shouldThrowOnUnresolvedErrors R (entryPath R) (platform R)"
  shows "\<exists>r c'. resolveDependency R c m n = (Some (Inr r), c') \<and>
                (\<forall>x. r = Some x \<longrightarrow> x \<in> M) \<and> ran c' \<subseteq> M"
  using assms
  by (auto simp: resolveDependency_def resolvesWithin_def Let_def ran_def
           split: option.splits sum.splits)

lemma promiseAll_fulfilled:
  "\<forall>p\<in>set ps. \<exists>r. p = Some (Inr r) \<and> P r \<Longrightarrow>
   \<exists>rs. promiseAll ps = Some (Inr rs) \<and> length rs = length ps \<and> (\<forall>r\<in>set rs. P r)"
proof (induction ps)
  case Nil
  then show ?case by simp
next
  case (Cons p ps)
  from Cons.prems obtain r where p: "p = Some (Inr r)" and r: "P r" by auto
  from Cons.prems have "\<forall>p\<in>set ps. \<exists>r. p = Some (Inr r) \<and> P r" by simp
  from Cons.IH [OF this] obtain rs where
    "promiseAll ps = Some (Inr rs)" "length rs = length ps" "\<forall>r\<in>set rs. P r"
    by blast
  with p r have "promiseAll (p # ps) = Some (Inr (r # rs)) \<and>
    length (r # rs) = length (p # ps) \<and> (\<forall>r\<in>set (r # rs). P r)"
    by simp
  then show ?case by blast
qed

lemma ran_foldl_add:
  "ran c \<subseteq> M \<Longrightarrow> \<forall>c'\<in>set cs. ran c' \<subseteq> M \<Longrightarrow> ran (foldl (\<lambda>c c'. c ++ c') c cs) \<subseteq> M"
proof (induction cs arbitrary: c)
  case Nil
  then show ?case by simp
next
  case (Cons c' cs)
  have "ran (c ++ c') \<subseteq> M"
    using Cons.prems by (auto simp: ran_def map_add_Some_iff)
  with Cons.IH [of "c ++ c'"] Cons.prems show ?case by simp
qed

lemma resolveAll_within:
  assumes "\<forall>n\<in>set names. resolvesWithin R M m n" and "ran c \<subseteq> M"
    and "\<not> shouldThrowOnUnresolvedErrors R (entryPath R) (platform R)"
  shows "\<exists>rs. promiseAll (fst (resolveAll R c m names)) = Some (Inr rs) \<and>
              length rs = length names \<and>
              (\<forall>r\<in>set rs. \<forall>x. r = Some x \<longrightarrow> x \<in> M) \<and>
              ran (snd (resolveAll R c m names)) \<subseteq> M"
proof -
  have each: "\<forall>n\<in>set names. \<exists>r c'. resolveDependency R c m n = (Some (Inr r), c') \<and>
                (\<forall>x. r = Some x \<longrightarrow> x \<in> M) \<and> ran c' \<subseteq> M"
    using assms by (blast intro: resolveDependency_within)
  have "\<forall>p\<in>set (fst (resolveAll R c m names)). \<exists>r. p = Some (Inr r) \<and> (\<forall>x. r = Some x \<longrightarrow> x \<in> M)"
    using each by (fastforce simp: resolveAll_def Let_def)
  from promiseAll_fulfilled [OF this] obtain rs where
    "promiseAll (fst (resolveAll R c m names)) = Some (Inr rs)"
    "length rs = length (fst (resolveAll R c m names))"
    "\<forall>r\<in>set rs. \<forall>x. r = Some x \<longrightarrow> x \<in> M"
    by blast
  moreover have "length (fst (resolveAll R c m names)) = length names"
    by (simp add: resolveAll_def Let_def)
  moreover have "ran (snd (resolveAll R c m names)) \<subseteq> M"
  proof -
    have "\<forall>c'\<in>set (map snd (map (resolveDependency R c m) names)). ran c' \<subseteq> M"
      using each by fastforce
    from ran_foldl_add [OF assms(2) this]
    show ?thesis by (simp add: resolveAll_def Let_def foldl_map)
  qed
  ultimately show ?thesis by auto
qed


lemma truthy_Some: "truthy v \<Longrightarrow> \<exists>file. v = Some file"
  by (cases v) (simp_all add: truthy_def)

lemma mergeMock_within:
  assumes "\<forall>name file. am name = Some file \<longrightarrow> Module file \<in> M"
    and "mergeMock am (dn, ds, mk) name = (dn', ds', mk')"
    and "length dn = length ds"
    and "\<forall>d\<in>set ds. \<forall>x. d = Some x \<longrightarrow> x \<in> M"
  shows "length dn' = length ds' \<and> (\<forall>d\<in>set ds'. \<forall>x. d = Some x \<longrightarrow> x \<in> M)"
proof (cases "hasFreeMock am mk name")
  case True
  then obtain f where "am name = Some f"
    by (auto simp: hasFreeMock_def dest: truthy_Some)
  with assms True show ?thesis
    by (auto simp: mergeMock_def Let_def)
next
  case False
  with assms show ?thesis by (auto simp: mergeMock_def)
qed

lemma mergeMocks_within:
  assumes "\<forall>name file. am name = Some file \<longrightarrow> Module file \<in> M"
  shows "foldl (mergeMock am) (dn, ds, mk) names = (dn', ds', mk') \<Longrightarrow>
         length dn = length ds \<Longrightarrow> \<forall>d\<in>set ds. \<forall>x. d = Some x \<longrightarrow> x \<in> M \<Longrightarrow>
         length dn' = length ds' \<and> (\<forall>d\<in>set ds'. \<forall>x. d = Some x \<longrightarrow> x \<in> M)"
proof (induction names arbitrary: dn ds mk)
  case Nil
  then show ?case by simp
next
  case (Cons name names)
  obtain dn1 ds1 mk1 where step: "mergeMock am (dn, ds, mk) name = (dn1, ds1, mk1)"
    by (cases "mergeMock am (dn, ds, mk) name")
  from mergeMock_within [OF assms step Cons.prems(2,3)]
  have "length dn1 = length ds1" "\<forall>d\<in>set ds1. \<forall>x. d = Some x \<longrightarrow> x \<in> M"
    by simp_all
  moreover from Cons.prems(1) step
  have "foldl (mergeMock am) (dn1, ds1, mk1) names = (dn', ds', mk')" by simp
  ultimately show ?case by (rule Cons.IH [rotated])
qed

lemma filterPair_within:
  assumes "\<forall>am. allMocks = Some am \<longrightarrow> (\<forall>name file. am name = Some file \<longrightarrow> Module file \<in> M)"
    and "filterPair allMocks (fp, mk) (name, d) = (fp', mk')"
    and "\<forall>(n, x)\<in>set fp. x \<in> M"
    and "\<forall>x. d = Some x \<longrightarrow> x \<in> M"
  shows "\<forall>(n, x)\<in>set fp'. x \<in> M"
proof (cases d)
  case (Some x)
  with assms show ?thesis by (auto simp: filterPair_def)
next
  case None
  show ?thesis
  proof (cases "allMocks \<noteq> None \<and> hasFreeMock (the allMocks) mk name")
    case True
    then obtain am f where "allMocks = Some am" "am name = Some f"
      by (auto simp: hasFreeMock_def dest: truthy_Some)
    with assms None True show ?thesis
      by (auto simp: filterPair_def Let_def)
  next
    case False
    with assms None show ?thesis by (auto simp: filterPair_def)
  qed
qed

lemma filterPairs_within:
  assumes "\<forall>am. allMocks = Some am \<longrightarrow> (\<forall>name file. am name = Some file \<longrightarrow> Module file \<in> M)"
  shows "foldl (filterPair allMocks) (fp, mk) deps = (fp', mk') \<Longrightarrow>
         \<forall>(n, x)\<in>set fp. x \<in> M \<Longrightarrow>
         \<forall>(n, d)\<in>set deps. \<forall>x. d = Some x \<longrightarrow> x \<in> M \<Longrightarrow>
         \<forall>(n, x)\<in>set fp'. x \<in> M"
proof (induction deps arbitrary: fp mk)
  case Nil
  then show ?case by simp
next
  case (Cons dep deps)
  obtain name d where dep: "dep = (name, d)" by (cases dep)
  obtain fp1 mk1 where step: "filterPair allMocks (fp, mk) (name, d) = (fp1, mk1)"
    by (cases "filterPair allMocks (fp, mk) (name, d)")
  from Cons.prems(3) dep have d: "\<forall>x. d = Some x \<longrightarrow> x \<in> M" by simp
  from filterPair_within [OF assms step Cons.prems(2) d]
  have 1: "\<forall>(n, x)\<in>set fp1. x \<in> M" .
  from Cons.prems(1) step dep
  have 2: "foldl (filterPair allMocks) (fp1, mk1) deps = (fp', mk')" by simp
  from Cons.prems(3) have 3: "\<forall>(n, d)\<in>set deps. \<forall>x. d = Some x \<longrightarrow> x \<in> M" by simp
  from Cons.IH [OF 2 1 3] show ?case .
qed

lemma collectMocks_within:
  assumes "closedGraph R allMocks M" and "m \<in> M"
    and "length depNames = length dependencies"
    and "\<forall>d\<in>set dependencies. \<forall>x. d = Some x \<longrightarrow> x \<in> M"
  shows "\<exists>dn ds mk. collectMocks R allMocks b m depNames dependencies = Some (Inr (dn, ds, mk)) \<and>
           length dn = length ds \<and> (\<forall>d\<in>set ds. \<forall>x. d = Some x \<longrightarrow> x \<in> M)"
proof (cases allMocks)
  case None
  with assms show ?thesis by (simp add: collectMocks_def)
next
  case (Some am)
  with assms(1,2) obtain names where names: "promiseAll (mockNames R m) = Some (Inr names)"
    and files: "\<forall>name file. am name = Some file \<longrightarrow> Module file \<in> M"
    unfolding closedGraph_def by blast
  obtain dn ds mk where f: "foldl (mergeMock am) (depNames, dependencies, mocks b) names = (dn, ds, mk)"
    by (cases "foldl (mergeMock am) (depNames, dependencies, mocks b) names")
  from mergeMocks_within [OF files f assms(3,4)] Some names f
  show ?thesis by (simp add: collectMocks_def thenP_def)
qed


lemma collect_within:
  assumes closed: "closedGraph R allMocks M" and m: "m \<in> M"
    and cache: "ran (immediateResolutionCache b) \<subseteq> M"
    and tolerant: "\<not> shouldThrowOnUnresolvedErrors R (entryPath R) (platform R)"
  shows "\<exists>fp b'.
           collect R opts allMocks b m =
             Some (Inr (map (\<lambda>(n, d). (d, if recursive opts then Pending d else Collected []))
                          (filter (\<lambda>(n, d). module_hash (moduleCache R) d \<notin> visited b) fp),
                        b')) \<and>
           (\<forall>(n, d)\<in>set fp. d \<in> M) \<and>
           visited b' = visited b \<union>
             set (map (\<lambda>(n, d). module_hash (moduleCache R) d)
                    (filter (\<lambda>(n, d). module_hash (moduleCache R) d \<notin> visited b) fp)) \<and>
           response_resolvedDependencyPairs b' = (response_resolvedDependencyPairs b)(m \<mapsto> fp) \<and>
           ran (immediateResolutionCache b') \<subseteq> M"
proof -
  from closed m obtain names where
    names: "module_getDependencies (moduleCache R) m = Inr names"
    and within: "\<forall>n\<in>set names. resolvesWithin R M m n"
    unfolding closedGraph_def by blast
  from resolveAll_within [OF within cache tolerant] obtain rs where
    rs: "promiseAll (fst (resolveAll R (immediateResolutionCache b) m names)) = Some (Inr rs)"
    and len: "length rs = length names"
    and rsM: "\<forall>r\<in>set rs. \<forall>x. r = Some x \<longrightarrow> x \<in> M"
    and cache': "ran (snd (resolveAll R (immediateResolutionCache b) m names)) \<subseteq> M"
    by blast
  from collectMocks_within [OF closed m len [symmetric] rsM] obtain dn ds mk where
    merged: "collectMocks R allMocks b m names rs = Some (Inr (dn, ds, mk))"
    and dsM: "\<forall>d\<in>set ds. \<forall>x. d = Some x \<longrightarrow> x \<in> M"
    by blast
  obtain fp mk2 where f: "foldl (filterPair allMocks) ([], mk) (zip dn ds) = (fp, mk2)"
    by (cases "foldl (filterPair allMocks) ([], mk) (zip dn ds)")
  have files: "\<forall>am. allMocks = Some am \<longrightarrow> (\<forall>name file. am name = Some file \<longrightarrow> Module file \<in> M)"
    using closed unfolding closedGraph_def by blast
  have "\<forall>(n, d)\<in>set (zip dn ds). \<forall>x. d = Some x \<longrightarrow> x \<in> M"
    using dsM by (auto dest: set_zip_rightD)
  from filterPairs_within [OF files f _ this] have fpM: "\<forall>(n, d)\<in>set fp. d \<in> M" by simp
  define cp where
    "cp = collectPairs R opts allMocks b m
            (snd (resolveAll R (immediateResolutionCache b) m names)) (dn, ds, mk)"
  have "collect R opts allMocks b m = Some (Inr cp)"
    by (simp add: cp_def collect_def thenP_def names split_beta rs merged)
  moreover have "fst cp =
      map (\<lambda>(n, d). (d, if recursive opts then Pending d else Collected []))
        (filter (\<lambda>(n, d). module_hash (moduleCache R) d \<notin> visited b) fp)"
    by (simp add: cp_def collectPairs_def f Let_def)
  ultimately have 1: "collect R opts allMocks b m =
      Some (Inr (map (\<lambda>(n, d). (d, if recursive opts then Pending d else Collected []))
                   (filter (\<lambda>(n, d). module_hash (moduleCache R) d \<notin> visited b) fp),
                 snd cp))"
    by (metis prod.collapse)
  have 2: "visited (snd cp) = visited b \<union>
             set (map (\<lambda>(n, d). module_hash (moduleCache R) d)
                    (filter (\<lambda>(n, d). module_hash (moduleCache R) d \<notin> visited b) fp))"
    by (simp add: cp_def collectPairs_def f Let_def)
  have 3: "response_resolvedDependencyPairs (snd cp) =
           (response_resolvedDependencyPairs b)(m \<mapsto> fp)"
    by (simp add: cp_def collectPairs_def f Let_def setResolvedDependencyPairs_def)
  have 4: "ran (immediateResolutionCache (snd cp)) \<subseteq> M"
    using cache' by (simp add: cp_def collectPairs_def f Let_def)
  from 1 fpM 2 3 4 show ?thesis by blast
qed

text \<open>
  The invariant of the traversal: the visited hashes are those of the entry and of the
  modules of the tree, all of them in \<open>M\<close>, and each of these modules is still
  pending or has its resolved pairs recorded, with every target visited.
\<close>

definition treeModules :: "request \<Rightarrow> task \<Rightarrow> module set" where
  "treeModules R t = insert (Module (entryPath R)) {a. Inl a \<in> set (events t)}"

definition pendingModules :: "task \<Rightarrow> module set" where
  "pendingModules t = {m. Inr m \<in> set (events t)}"

definition pendingCount :: "task \<Rightarrow> nat" where
  "pendingCount t = length [m. Inr m \<leftarrow> events t]"

definition recorded :: "request \<Rightarrow> module set \<Rightarrow> build \<Rightarrow> module \<Rightarrow> bool" where
  "recorded R M b x =
     (\<exists>pairs. response_resolvedDependencyPairs b x = Some pairs \<and>
        (\<forall>(n, target)\<in>set pairs.
           target \<in> M \<and> module_hash (moduleCache R) target \<in> visited b))"

definition graphInv :: "request \<Rightarrow> module set \<Rightarrow> task \<Rightarrow> build \<Rightarrow> bool" where
  "graphInv R M t b =
     (visited b = module_hash (moduleCache R) ` treeModules R t \<and>
      treeModules R t \<subseteq> M \<and>
      pendingModules t \<subseteq> treeModules R t \<and>
      ran (immediateResolutionCache b) \<subseteq> M \<and>
      (\<forall>x\<in>treeModules R t. x \<in> pendingModules t \<or> recorded R M b x))"

lemma events_children:
  "eventsList (map (\<lambda>(n, d). (d, Pending d)) nd) = concat (map (\<lambda>(n, d). [Inl d, Inr d]) nd)"
  by (induction nd) auto

lemma inl_children:
  "(Inl a \<in> set (concat (map (\<lambda>(n, d). [Inl d, Inr d]) nd))) = (a \<in> snd ` set nd)"
  by (induction nd) auto

lemma inr_children:
  "(Inr a \<in> set (concat (map (\<lambda>(n, d). [Inl d, Inr d]) nd))) = (a \<in> snd ` set nd)"
  by (induction nd) auto

lemma step_inv:
  assumes closed: "closedGraph R allMocks M"
    and tolerant: "\<not> shouldThrowOnUnresolvedErrors R (entryPath R) (platform R)"
    and rec: "recursive opts"
    and inv: "graphInv R M t b"
    and p: "pendingAt path t = Some m"
  shows "\<exists>t' b'. fireAt (collect R opts allMocks) path t b = Some (Inr (t', b')) \<and>
           graphInv R M t' b' \<and>
           (visited b \<subset> visited b' \<or>
            visited b' = visited b \<and> pendingCount t' < pendingCount t)"
proof -
  let ?h = "module_hash (moduleCache R)"
  from events_replaceAt [OF p] obtain pre post where
    ev: "events t = pre @ Inr m # post"
    and rep: "\<And>new. events (replaceAt path new t) = pre @ events new @ post"
    by blast
  from ev have mp: "m \<in> pendingModules t" by (simp add: pendingModules_def)
  with inv have mM: "m \<in> M" and mt: "m \<in> treeModules R t"
    unfolding graphInv_def by auto
  from inv have cache: "ran (immediateResolutionCache b) \<subseteq> M"
    unfolding graphInv_def by simp
  from collect_within [OF closed mM cache tolerant, of opts] rec obtain fp b' where
    c: "collect R opts allMocks b m =
          Some (Inr (map (\<lambda>(n, d). (d, Pending d))
                       (filter (\<lambda>(n, d). ?h d \<notin> visited b) fp), b'))"
    and fpM: "\<forall>(n, d)\<in>set fp. d \<in> M"
    and vis: "visited b' = visited b \<union>
             set (map (\<lambda>(n, d). ?h d) (filter (\<lambda>(n, d). ?h d \<notin> visited b) fp))"
    and pairs: "response_resolvedDependencyPairs b' = (response_resolvedDependencyPairs b)(m \<mapsto> fp)"
    and cache': "ran (immediateResolutionCache b') \<subseteq> M"
    by auto
  define nd where "nd = filter (\<lambda>(n, d). ?h d \<notin> visited b) fp"
  define t' where "t' = replaceAt path (Collected (map (\<lambda>(n, d). (d, Pending d)) nd)) t"
  have fire: "fireAt (collect R opts allMocks) path t b = Some (Inr (t', b'))"
    by (simp add: fireAt_pendingAt [OF p] c thenP_def t'_def nd_def)
  have ev': "events t' = pre @ concat (map (\<lambda>(n, d). [Inl d, Inr d]) nd) @ post"
    by (simp add: t'_def rep events_children)
  have tm': "treeModules R t' = treeModules R t \<union> snd ` set nd"
    by (force simp: treeModules_def ev ev' inl_children)
  have pm'1: "pendingModules t' \<subseteq> pendingModules t \<union> snd ` set nd"
    by (force simp: pendingModules_def ev ev' inr_children)
  have pm'2: "pendingModules t \<subseteq> insert m (pendingModules t')"
    by (auto simp: pendingModules_def ev ev')
  have pm'3: "snd ` set nd \<subseteq> pendingModules t'"
    by (force simp: pendingModules_def ev' inr_children)
  have "(\<lambda>(n :: string, d). ?h d) = ?h \<circ> snd" by (auto simp: fun_eq_iff)
  then have vis': "visited b' = visited b \<union> ?h ` snd ` set nd"
    by (simp add: vis nd_def image_comp)
  have ndM: "snd ` set nd \<subseteq> M"
    using fpM by (auto simp: nd_def)
  have rec_m: "recorded R M b' m"
    unfolding recorded_def
  proof (intro exI conjI)
    show "response_resolvedDependencyPairs b' m = Some fp" by (simp add: pairs)
    show "\<forall>(n, target)\<in>set fp. target \<in> M \<and> ?h target \<in> visited b'"
    proof (clarify, intro conjI)
      fix n target assume in_fp: "(n, target) \<in> set fp"
      with fpM show "target \<in> M" by auto
      show "?h target \<in> visited b'"
      proof (cases "?h target \<in> visited b")
        case True
        then show ?thesis by (simp add: vis')
      next
        case False
        with in_fp have "(n, target) \<in> set nd" by (simp add: nd_def)
        then show ?thesis by (force simp: vis')
      qed
    qed
  qed
  have rec_old: "recorded R M b' x" if "recorded R M b x" "x \<noteq> m" for x
    using that by (auto simp: recorded_def pairs vis')
  have inv': "graphInv R M t' b'"
    unfolding graphInv_def
  proof (intro conjI ballI)
    from inv have "visited b = ?h ` treeModules R t" unfolding graphInv_def by simp
    then show "visited b' = ?h ` treeModules R t'"
      by (simp add: vis' tm' image_Un)
    from inv ndM show "treeModules R t' \<subseteq> M"
      unfolding graphInv_def by (simp add: tm')
    from inv pm'1 show "pendingModules t' \<subseteq> treeModules R t'"
      unfolding graphInv_def tm' by blast
    show "ran (immediateResolutionCache b') \<subseteq> M" by (rule cache')
  next
    fix x assume "x \<in> treeModules R t'"
    then consider (old) "x \<in> treeModules R t" | (new) "x \<in> snd ` set nd"
      by (auto simp: tm')
    then show "x \<in> pendingModules t' \<or> recorded R M b' x"
    proof cases
      case new
      with pm'3 show ?thesis by blast
    next
      case old
      show ?thesis
      proof (cases "x = m")
        case True
        with rec_m show ?thesis by simp
      next
        case False
        from inv old have "x \<in> pendingModules t \<or> recorded R M b x"
          unfolding graphInv_def by blast
        with False pm'2 rec_old show ?thesis by blast
      qed
    qed
  qed
  have progress: "visited b \<subset> visited b' \<or>
            visited b' = visited b \<and> pendingCount t' < pendingCount t"
  proof (cases nd)
    case Nil
    then show ?thesis by (simp add: vis' pendingCount_def ev ev')
  next
    case (Cons x xs)
    obtain n d where x: "x = (n, d)" by (cases x)
    from Cons x have "(n, d) \<in> set nd" by simp
    then have "?h d \<notin> visited b" "?h d \<in> visited b'"
      by (auto simp: nd_def vis' image_iff)
    then show ?thesis by (auto simp: vis')
  qed
  from fire inv' progress show ?thesis by blast
qed


lemma run_completes:
  assumes closed: "closedGraph R allMocks M"
    and tolerant: "\<not> shouldThrowOnUnresolvedErrors R (entryPath R) (platform R)"
    and rec: "recursive opts"
    and fin: "finite M"
  shows "graphInv R M (fst cfg) (snd cfg) \<Longrightarrow>
         \<exists>n t' b'. run (collect R opts allMocks) (map sched [0..<n]) cfg = Some (Inr (t', b')) \<and>
                   pendingPaths t' = [] \<and> graphInv R M t' b'"
proof (induction cfg arbitrary: sched
       rule: wf_induct_rule
               [OF wf_measures
                  [of "[\<lambda>cfg. card (module_hash (moduleCache R) ` M - visited (snd cfg)),
                        \<lambda>cfg. pendingCount (fst cfg)]"]])
  case (1 cfg)
  let ?h = "module_hash (moduleCache R)"
  obtain t b where cfg: "cfg = (t, b)" by (cases cfg)
  from "1.prems" cfg have inv: "graphInv R M t b" by simp
  show ?case
  proof (cases "pendingPaths t")
    case Nil
    with inv cfg have "run (collect R opts allMocks) (map sched [0..<0]) cfg = Some (Inr (t, b)) \<and>
      pendingPaths t = [] \<and> graphInv R M t b"
      by simp
    then show ?thesis by blast
  next
    case (Cons p ps)
    let ?path = "pendingPaths t ! (sched 0 mod length (pendingPaths t))"
    from Cons have "pendingPaths t \<noteq> []" by simp
    then have "?path \<in> set (pendingPaths t)" by (intro nth_mem) simp
    from pendingPaths_pendingAt(1) [OF this] obtain m where
      pend: "pendingAt ?path t = Some m" ..
    from step_inv [OF closed tolerant rec inv pend] obtain t1 b1 where
      fire: "fireAt (collect R opts allMocks) ?path t b = Some (Inr (t1, b1))"
      and inv1: "graphInv R M t1 b1"
      and less: "visited b \<subset> visited b1 \<or>
                 visited b1 = visited b \<and> pendingCount t1 < pendingCount t"
      by blast
    from inv1 have sub: "visited b1 \<subseteq> ?h ` M"
      unfolding graphInv_def by auto
    have "((t1, b1), cfg) \<in> measures [\<lambda>cfg. card (?h ` M - visited (snd cfg)),
                                      \<lambda>cfg. pendingCount (fst cfg)]"
    proof (cases "visited b \<subset> visited b1")
      case True
      with sub have "?h ` M - visited b1 \<subset> ?h ` M - visited b" by blast
      with fin have "card (?h ` M - visited b1) < card (?h ` M - visited b)"
        by (intro psubset_card_mono) simp_all
      then show ?thesis by (simp add: cfg)
    next
      case False
      with less show ?thesis by (simp add: cfg)
    qed
    from "1.IH" [OF this, of "\<lambda>i. sched (Suc i)"] inv1
    have "\<exists>n t' b'. run (collect R opts allMocks) (map (\<lambda>i. sched (Suc i)) [0..<n]) (t1, b1)
                        = Some (Inr (t', b')) \<and>
                     pendingPaths t' = [] \<and> graphInv R M t' b'"
      by simp
    then obtain n t' b' where
      rest: "run (collect R opts allMocks) (map (\<lambda>i. sched (Suc i)) [0..<n]) (t1, b1)
             = Some (Inr (t', b'))"
      and fin': "pendingPaths t' = []" and inv': "graphInv R M t' b'"
      by blast
    have sched: "map sched [0..<Suc n] = sched 0 # map (\<lambda>i. sched (Suc i)) [0..<n]"
      by (simp only: map_upt_Suc)
    have "run (collect R opts allMocks) (map sched [0..<Suc n]) cfg = Some (Inr (t', b'))"
      unfolding sched cfg using Cons fire rest
      by (simp add: thenP_def)
    with fin' inv' show ?thesis by blast
  qed
qed

lemma initial_inv:
  assumes "closedGraph R allMocks M" and "ran cache0 \<subseteq> M"
  shows "graphInv R M (Pending (Module (entryPath R))) (initialBuild R cache0)"
  using assms
  by (simp add: graphInv_def treeModules_def pendingModules_def initialBuild_def Let_def
        pushDependency_def closedGraph_def)

text \<open>
  A response that includes every reachable module: the entry module is first, every
  module of the sequence has its resolved pairs recorded, and every target of a recorded
  pair is in the sequence.
\<close>

definition responseClosed :: "request \<Rightarrow> build \<Rightarrow> bool" where
  "responseClosed R b =
     (hd (response_dependencies b) = Module (entryPath R) \<and>
      (\<forall>m\<in>set (response_dependencies b).
         \<exists>pairs. response_resolvedDependencyPairs b m = Some pairs \<and>
                 (\<forall>(name, target)\<in>set pairs. target \<in> set (response_dependencies b))))"

lemma build_completes:
  assumes closed: "closedGraph R (getAllMocks R (mocksPattern opts)) M"
    and tolerant: "\<not> shouldThrowOnUnresolvedErrors R (entryPath R) (platform R)"
    and rec: "recursive opts"
    and fin: "finite M"
    and cache: "ran cache0 \<subseteq> M"
  shows "\<exists>n b. getOrderedDependencies R opts cache0 (map sched [0..<n]) = Some (Inr b) \<and>
               responseClosed R b"
proof -
  let ?h = "module_hash (moduleCache R)"
  let ?E = "Module (entryPath R)"
  from run_completes [OF closed tolerant rec fin, of "(Pending ?E, initialBuild R cache0)" sched]
       initial_inv [OF closed cache]
  obtain n t b where
    run: "collectEntry R opts cache0 (map sched [0..<n]) = Some (Inr (t, b))"
    and settled: "pendingPaths t = []" and inv: "graphInv R M t b"
    unfolding collectEntry_def by auto
  from settled settled_iff(1) [of t] obtain v where v: "settledValue t = Some v" by auto
  define final where
    "final = setMocks (mocks b) (foldl (\<lambda>b dep. pushDependency dep b) b (recursiveFlatten v))"
  have god: "getOrderedDependencies R opts cache0 (map sched [0..<n]) = Some (Inr final)"
    by (simp add: getOrderedDependencies_def run thenP_def v final_def)
  have deps: "response_dependencies final = ?E # spec_preorder t"
    using moduleSequence_preorder [of R opts cache0 "map sched [0..<n]"]
    by (simp add: god run settled moduleSequence_def)
  have push_pairs: "response_resolvedDependencyPairs (foldl (\<lambda>b dep. pushDependency dep b) b0 ds)
        = response_resolvedDependencyPairs b0" for b0 ds
    by (induction ds arbitrary: b0) (simp_all add: pushDependency_def)
  have pairs: "response_resolvedDependencyPairs final = response_resolvedDependencyPairs b"
    by (simp add: final_def setMocks_def push_pairs)
  have tm: "set (response_dependencies final) = treeModules R t"
    by (auto simp: deps treeModules_def preorder_events(1))
  from settled have nop: "pendingModules t = {}"
    by (simp add: pendingModules_def pendingPaths_events(1))
  have "responseClosed R final"
    unfolding responseClosed_def
  proof (intro conjI ballI)
    show "hd (response_dependencies final) = ?E" by (simp add: deps)
  next
    fix m assume "m \<in> set (response_dependencies final)"
    with tm have "m \<in> treeModules R t" by simp
    with inv nop have "recorded R M b m" unfolding graphInv_def by blast
    then obtain ps where
      ps: "response_resolvedDependencyPairs b m = Some ps"
      and tg: "\<forall>(n, target)\<in>set ps. target \<in> M \<and> ?h target \<in> visited b"
      unfolding recorded_def by blast
    have "\<forall>(name, target)\<in>set ps. target \<in> set (response_dependencies final)"
    proof clarify
      fix name target assume "(name, target) \<in> set ps"
      with tg have tM: "target \<in> M" and "?h target \<in> visited b" by auto
      with inv obtain y where y: "y \<in> treeModules R t" "?h y = ?h target"
        unfolding graphInv_def by auto
      with inv have "y \<in> M" unfolding graphInv_def by blast
      with closed tM y(2) have "y = target"
        unfolding closedGraph_def by (auto dest: inj_onD)
      with y(1) tm show "target \<in> set (response_dependencies final)" by simp
    qed
    with ps pairs
    show "\<exists>pairs. response_resolvedDependencyPairs final m = Some pairs \<and>
                 (\<forall>(name, target)\<in>set pairs. target \<in> set (response_dependencies final))"
      by simp
  qed
  with god show ?thesis by blast
qed


lemma promiseAll_rejects:
  "Some (Inl e) \<in> set ps \<Longrightarrow> \<exists>e'. Some (Inl e') \<in> set ps \<and> promiseAll ps = Some (Inl e')"
proof (induction ps)
  case Nil
  then show ?case by simp
next
  case (Cons p ps)
  show ?case
  proof (cases "p = Some (Inl e)")
    case True
    then have "Some (Inl e) \<in> set (p # ps) \<and> promiseAll (p # ps) = Some (Inl e)" by simp
    then show ?thesis by blast
  next
    case False
    with Cons.prems have "Some (Inl e) \<in> set ps" by simp
    from Cons.IH [OF this] obtain e' where
      e': "Some (Inl e') \<in> set ps" "promiseAll ps = Some (Inl e')" by blast
    show ?thesis
    proof (cases p)
      case None
      with e' have "Some (Inl e') \<in> set (p # ps) \<and> promiseAll (p # ps) = Some (Inl e')" by simp
      then show ?thesis by blast
    next
      case (Some r)
      show ?thesis
      proof (cases r)
        case (Inl e2)
        with Some have "Some (Inl e2) \<in> set (p # ps) \<and> promiseAll (p # ps) = Some (Inl e2)"
          by simp
        then show ?thesis by blast
      next
        case (Inr v)
        with Some e' have "Some (Inl e') \<in> set (p # ps) \<and> promiseAll (p # ps) = Some (Inl e')"
          by simp
        then show ?thesis by blast
      qed
    qed
  qed
qed

lemma filterPairs_no_mocks:
  "foldl (filterPair None) (fp, mk) deps = (fp @ [(n, x). (n, Some x) \<leftarrow> deps], mk)"
proof (induction deps arbitrary: fp)
  case Nil
  show ?case by simp
next
  case (Cons dep deps)
  obtain n d where dep: "dep = (n, d)" by (cases dep)
  have step: "filterPair None (fp, mk) (n, d') =
              (case d' of None \<Rightarrow> (fp, mk) | Some x \<Rightarrow> (fp @ [(n, x)], mk))" for d'
    by (simp add: filterPair_def split: option.splits)
  show ?case
    unfolding dep by (cases d) (simp_all add: step Cons.IH)
qed

text \<open>
  The resolved pairs of a module when no mock table is active, in the words of the
  specification: the declared names whose resolution is a module, in the order of
  declaration; a name resolved to \<open>null\<close> is omitted.
\<close>

definition spec_resolvedPairs :: "request \<Rightarrow> build \<Rightarrow> module \<Rightarrow> (string \<times> module) list" where
  "spec_resolvedPairs R b m =
     (case module_getDependencies (moduleCache R) m of
        Inl error \<Rightarrow> []
      | Inr names \<Rightarrow>
          [(name, target).
             (name, Some (Inr (Some target))) \<leftarrow>
               zip names (map (\<lambda>name. fst (resolveDependency R (immediateResolutionCache b) m name))
                            names)])"

lemma promiseAll_values:
  "promiseAll ps = Some (Inr vs) \<Longrightarrow> ps = map (\<lambda>v. Some (Inr v)) vs"
proof (induction ps arbitrary: vs)
  case Nil
  then show ?case by simp
next
  case (Cons p ps)
  then show ?case
    by (auto split: option.splits sum.splits)
qed

lemma nonnull_pairs:
  "[(n, x). (n, Some x) \<leftarrow> zip names vs] =
   [(n, x). (n, Some (Inr (Some x))) \<leftarrow> zip names (map (\<lambda>v. Some (Inr v)) vs)]"
proof (induction names arbitrary: vs)
  case Nil
  show ?case by simp
next
  case (Cons n names)
  show ?case
  proof (cases vs)
    case Nil
    then show ?thesis by simp
  next
    case (Cons v vs')
    then show ?thesis by (cases v) (simp_all add: Cons.IH)
  qed
qed

lemma collect_no_mocks:
  assumes "collect R opts None b m = Some (Inr (children, b'))"
  shows "response_resolvedDependencyPairs b' m = Some (spec_resolvedPairs R b m)"
proof -
  from collect_effect [OF assms] obtain names outcomes merged where
    n: "module_getDependencies (moduleCache R) m = Inr names"
    and o: "promiseAll (fst (resolveAll R (immediateResolutionCache b) m names)) = Some (Inr outcomes)"
    and mg: "collectMocks R None b m names outcomes = Some (Inr merged)"
    and r: "(children, b') = collectPairs R opts None b m
              (snd (resolveAll R (immediateResolutionCache b) m names)) merged"
    by blast
  from mg have merged: "merged = (names, outcomes, mocks b)"
    by (simp add: collectMocks_def)
  from r have "b' = snd (collectPairs R opts None b m
              (snd (resolveAll R (immediateResolutionCache b) m names)) merged)"
    by (metis snd_conv)
  then have 1: "response_resolvedDependencyPairs b' m =
             Some [(n, x). (n, Some x) \<leftarrow> zip names outcomes]"
    by (simp add: merged collectPairs_def filterPairs_no_mocks Let_def
          setResolvedDependencyPairs_def)
  from promiseAll_values [OF o]
  have eq: "map (\<lambda>name. fst (resolveDependency R (immediateResolutionCache b) m name)) names =
        map (\<lambda>v. Some (Inr v)) outcomes"
    by (simp add: resolveAll_def Let_def comp_def)
  have "spec_resolvedPairs R b m = [(n, x). (n, Some x) \<leftarrow> zip names outcomes]"
    unfolding spec_resolvedPairs_def n sum.case eq
    by (rule nonnull_pairs [symmetric])
  with 1 show ?thesis by simp
qed

lemma collect_rejects:
  assumes "module_getDependencies (moduleCache R) m = Inr names"
    and "Some (Inl e) \<in> set (fst (resolveAll R (immediateResolutionCache b) m names))"
  shows "\<exists>e'. Some (Inl e') \<in> set (fst (resolveAll R (immediateResolutionCache b) m names)) \<and>
              collect R opts allMocks b m = Some (Inl e')"
proof -
  from promiseAll_rejects [OF assms(2)] obtain e' where
    "Some (Inl e') \<in> set (fst (resolveAll R (immediateResolutionCache b) m names))"
    "promiseAll (fst (resolveAll R (immediateResolutionCache b) m names)) = Some (Inl e')"
    by blast
  with assms(1) show ?thesis
    by (auto simp: collect_def thenP_def split_beta)
qed

lemma run_rejects:
  assumes "pendingPaths t \<noteq> []"
    and "pendingAt (pendingPaths t ! (pick mod length (pendingPaths t))) t = Some m"
    and "callback b m = Some (Inl e)"
  shows "run callback (pick # schedule) (t, b) = Some (Inl e)"
  using assms
  by (cases "pendingPaths t") (simp_all add: fireAt_pendingAt thenP_def)

lemma getOrderedDependencies_rejects:
  "collectEntry R opts cache0 schedule = Some (Inl e) \<Longrightarrow>
   getOrderedDependencies R opts cache0 schedule = Some (Inl e)"
  by (simp add: getOrderedDependencies_def thenP_def)

text \<open>
  C6. A pipeline failure of \<open>resolveDependency\<close> becomes \<open>null\<close> exactly when it is an
  \<open>UnableToResolveError\<close> and the policy hook returns false, and is rethrown otherwise.
  The collector omits a \<open>null\<close> dependency from the resolved pairs of the module,
  unless a mock of that name is free, so that without mocks the recorded pairs are the
  names resolved to a module. Under the tolerant policy the build of a finite graph
  completes under every schedule, and its response includes every reachable module.
  When the resolution of a dependency of a module is rejected, the step that collects
  the module rejects the build, and \<open>getOrderedDependencies\<close> is rejected with the
  error of \<open>collect(entry)\<close>.
\<close>

theorem unresolved_dependency_tolerated:
  "(c (resolutionHash (lib R) (module_path fromModule) toModuleName) = None \<and>
    deprecatedAssetMap R fromModule toModuleName = None \<and>
    pipeline R fromModule toModuleName = Some (Inl error) \<longrightarrow>
      fst (resolveDependency R c fromModule toModuleName) =
        (if isUnableToResolveError error \<and>
            \<not> shouldThrowOnUnresolvedErrors R (entryPath R) (platform R)
         then Some (Inr None) else Some (Inl error))) \<and>
   filterPair allMocks (filteredPairs, mocks') (name, None) =
     (if allMocks \<noteq> None \<and> hasFreeMock (the allMocks) mocks' name
      then (filteredPairs @ [(name, Module (the (the allMocks name)))],
            mocks'(name \<mapsto> the (the allMocks name)))
      else (filteredPairs, mocks')) \<and>
   map_option (map_sum id (\<lambda>(children, b'). response_resolvedDependencyPairs b' m))
       (collect R opts None b m) =
     map_option (map_sum id (\<lambda>result. Some (spec_resolvedPairs R b m)))
       (collect R opts None b m) \<and>
   (closedGraph R (getAllMocks R (mocksPattern opts)) M \<and> finite M \<and> ran cache0 \<subseteq> M \<and>
    recursive opts \<and> \<not> shouldThrowOnUnresolvedErrors R (entryPath R) (platform R) \<longrightarrow>
      (\<forall>sched. \<exists>n final.
         getOrderedDependencies R opts cache0 (map sched [0..<n]) = Some (Inr final) \<and>
         responseClosed R final)) \<and>
   (pendingPaths t \<noteq> [] \<and>
    pendingAt (pendingPaths t ! (pick mod length (pendingPaths t))) t = Some m \<and>
    module_getDependencies (moduleCache R) m = Inr depNames \<and>
    Some (Inl error) \<in> set (fst (resolveAll R (immediateResolutionCache b) m depNames)) \<longrightarrow>
      (\<exists>e. Some (Inl e) \<in> set (fst (resolveAll R (immediateResolutionCache b) m depNames)) \<and>
           run (collect R opts allMocks) (pick # schedule) (t, b) = Some (Inl e))) \<and>
   (collectEntry R opts cache0 schedule = Some (Inl error) \<longrightarrow>
      getOrderedDependencies R opts cache0 schedule = Some (Inl error))"
proof (intro conjI impI)
  assume "c (resolutionHash (lib R) (module_path fromModule) toModuleName) = None \<and>
    deprecatedAssetMap R fromModule toModuleName = None \<and>
    pipeline R fromModule toModuleName = Some (Inl error)"
  then show "fst (resolveDependency R c fromModule toModuleName) =
        (if isUnableToResolveError error \<and>
            \<not> shouldThrowOnUnresolvedErrors R (entryPath R) (platform R)
         then Some (Inr None) else Some (Inl error))"
    by (simp add: resolveDependency_def)
next
  show "filterPair allMocks (filteredPairs, mocks') (name, None) =
     (if allMocks \<noteq> None \<and> hasFreeMock (the allMocks) mocks' name
      then (filteredPairs @ [(name, Module (the (the allMocks name)))],
            mocks'(name \<mapsto> the (the allMocks name)))
      else (filteredPairs, mocks'))"
    by (simp add: filterPair_def)
next
  show "map_option (map_sum id (\<lambda>(children, b'). response_resolvedDependencyPairs b' m))
       (collect R opts None b m) =
     map_option (map_sum id (\<lambda>result. Some (spec_resolvedPairs R b m)))
       (collect R opts None b m)"
  proof (cases "collect R opts None b m")
    case None
    then show ?thesis by simp
  next
    case (Some r)
    then show ?thesis
      by (cases r) (auto dest: collect_no_mocks)
  qed
next
  assume "closedGraph R (getAllMocks R (mocksPattern opts)) M \<and> finite M \<and> ran cache0 \<subseteq> M \<and>
    recursive opts \<and> \<not> shouldThrowOnUnresolvedErrors R (entryPath R) (platform R)"
  then show "\<forall>sched. \<exists>n final.
         getOrderedDependencies R opts cache0 (map sched [0..<n]) = Some (Inr final) \<and>
         responseClosed R final"
    by (blast intro: build_completes)
next
  assume a: "pendingPaths t \<noteq> [] \<and>
    pendingAt (pendingPaths t ! (pick mod length (pendingPaths t))) t = Some m \<and>
    module_getDependencies (moduleCache R) m = Inr depNames \<and>
    Some (Inl error) \<in> set (fst (resolveAll R (immediateResolutionCache b) m depNames))"
  then obtain e where
    "Some (Inl e) \<in> set (fst (resolveAll R (immediateResolutionCache b) m depNames))"
    "collect R opts allMocks b m = Some (Inl e)"
    using collect_rejects by blast
  with a run_rejects [of t pick m "collect R opts allMocks" b e schedule]
  show "\<exists>e. Some (Inl e) \<in> set (fst (resolveAll R (immediateResolutionCache b) m depNames)) \<and>
           run (collect R opts allMocks) (pick # schedule) (t, b) = Some (Inl e)"
    by blast
next
  assume "collectEntry R opts cache0 schedule = Some (Inl error)"
  then show "getOrderedDependencies R opts cache0 schedule = Some (Inl error)"
    by (rule getOrderedDependencies_rejects)
qed


text \<open>\<open>a\<close> requires \<open>b\<close> and a file that does not exist, \<open>b\<close> requires \<open>a\<close>; with the
  strict policy hook, and with the tolerant one.\<close>

definition exampleMissing :: request where
  "exampleMissing = exampleGraph [''/root/a.js'', ''/root/b.js'']
     [(''/root/a.js'', [''./b'', ''./missing'']), (''/root/b.js'', [''./a''])]"

definition exampleMissingTolerant :: request where
  "exampleMissingTolerant =
     exampleMissing \<lparr> shouldThrowOnUnresolvedErrors := (\<lambda>entry pf. False) \<rparr>"

lemmas graph_simps =
  example_simps exampleGraph_def exampleMissing_def exampleMissingTolerant_def
  packageLoop_stop packageLoop_next isPackage_def resolvesWithin_def closedGraph_def
  exampleHash_def exampleOptions_def getAllMocks_def truthy_def

lemma failed_projection:
  "map_option (map_sum id (\<lambda>x. ())) p = Some (Inl e) \<Longrightarrow> p = Some (Inl e)"
  by (cases p) (auto simp: map_sum_def split: sum.splits)

theorem unresolved_dependency_tolerated_witness:
  "(Map.empty (resolutionHash (lib exampleMissing) (module_path (Module ''/root/a.js'')) ''./missing'')
      = None \<and>
    deprecatedAssetMap exampleMissing (Module ''/root/a.js'') ''./missing'' = None \<and>
    pipeline exampleMissing (Module ''/root/a.js'') ''./missing'' =
      Some (Inl (UnableToResolveError (Module ''/root/a.js'') ''./missing''
                   (NotInModuleMap ''/root/missing'')))) \<and>
   fst (resolveDependency exampleMissingTolerant Map.empty (Module ''/root/a.js'') ''./missing'')
     = Some (Inr None) \<and>
   fst (resolveDependency exampleMissing Map.empty (Module ''/root/a.js'') ''./missing'')
     = Some (Inl (UnableToResolveError (Module ''/root/a.js'') ''./missing''
                    (NotInModuleMap ''/root/missing''))) \<and>
   (closedGraph exampleMissingTolerant
      (getAllMocks exampleMissingTolerant (mocksPattern exampleOptions))
      {Module ''/root/a.js'', Module ''/root/b.js''} \<and>
    finite {Module ''/root/a.js'', Module ''/root/b.js''} \<and>
    ran (Map.empty :: cache) \<subseteq> {Module ''/root/a.js'', Module ''/root/b.js''} \<and>
    recursive exampleOptions \<and>
    \<not> shouldThrowOnUnresolvedErrors exampleMissingTolerant (entryPath exampleMissingTolerant)
        (platform exampleMissingTolerant)) \<and>
   (\<forall>sched. \<exists>n final.
      getOrderedDependencies exampleMissingTolerant exampleOptions Map.empty (map sched [0..<n])
        = Some (Inr final) \<and>
      responseClosed exampleMissingTolerant final) \<and>
   moduleSequence (getOrderedDependencies exampleMissingTolerant exampleOptions Map.empty [0, 0])
     = Some (Inr [Module ''/root/a.js'', Module ''/root/b.js'']) \<and>
   map_option (map_sum id (\<lambda>b. response_resolvedDependencyPairs b (Module ''/root/a.js'')))
     (getOrderedDependencies exampleMissingTolerant exampleOptions Map.empty [0, 0])
     = Some (Inr (Some [(''./b'', Module ''/root/b.js'')])) \<and>
   collectEntry exampleMissing exampleOptions Map.empty [0]
     = Some (Inl (UnableToResolveError (Module ''/root/a.js'') ''./missing''
                    (NotInModuleMap ''/root/missing''))) \<and>
   getOrderedDependencies exampleMissing exampleOptions Map.empty [0]
     = Some (Inl (UnableToResolveError (Module ''/root/a.js'') ''./missing''
                    (NotInModuleMap ''/root/missing'')))"
proof -
  let ?a = "Module ''/root/a.js''"
  let ?err = "UnableToResolveError ?a ''./missing'' (NotInModuleMap ''/root/missing'')"
  let ?M = "{Module ''/root/a.js'', Module ''/root/b.js''}"
  have key: "Map.empty (resolutionHash (lib exampleMissing) (module_path ?a) ''./missing'') = None"
    by simp
  have asset: "deprecatedAssetMap exampleMissing ?a ''./missing'' = None"
    by (simp add: graph_simps)
  have pipe: "pipeline exampleMissing ?a ''./missing'' = Some (Inl ?err)"
    by (simp add: graph_simps)
  have same: "lib exampleMissingTolerant = lib exampleMissing"
    "deprecatedAssetMap exampleMissingTolerant = deprecatedAssetMap exampleMissing"
    "pipeline exampleMissingTolerant ?a ''./missing'' = Some (Inl ?err)"
    by (simp_all add: graph_simps)
  have strict: "shouldThrowOnUnresolvedErrors exampleMissing (entryPath exampleMissing)
                  (platform exampleMissing)"
    by (simp add: graph_simps)
  have tolerant: "\<not> shouldThrowOnUnresolvedErrors exampleMissingTolerant
                      (entryPath exampleMissingTolerant) (platform exampleMissingTolerant)"
    by (simp add: graph_simps)
  from unresolved_dependency_tolerated
         [where c = Map.empty and R = exampleMissingTolerant and fromModule = ?a
            and toModuleName = "''./missing''" and error = ?err, THEN conjunct1]
       key asset same tolerant
  have r1: "fst (resolveDependency exampleMissingTolerant Map.empty ?a ''./missing'')
              = Some (Inr None)"
    by simp
  from unresolved_dependency_tolerated
         [where c = Map.empty and R = exampleMissing and fromModule = ?a
            and toModuleName = "''./missing''" and error = ?err, THEN conjunct1]
       key asset pipe strict
  have r2: "fst (resolveDependency exampleMissing Map.empty ?a ''./missing'') = Some (Inl ?err)"
    by simp
  have closed: "closedGraph exampleMissingTolerant
      (getAllMocks exampleMissingTolerant (mocksPattern exampleOptions)) ?M"
    by (simp add: graph_simps)
  have hyps: "closedGraph exampleMissingTolerant
      (getAllMocks exampleMissingTolerant (mocksPattern exampleOptions)) ?M \<and>
    finite ?M \<and> ran (Map.empty :: cache) \<subseteq> ?M \<and> recursive exampleOptions \<and>
    \<not> shouldThrowOnUnresolvedErrors exampleMissingTolerant (entryPath exampleMissingTolerant)
        (platform exampleMissingTolerant)"
    using closed tolerant by (simp add: exampleOptions_def)
  from unresolved_dependency_tolerated
         [where R = exampleMissingTolerant and opts = exampleOptions and M = ?M
            and ?cache0.0 = Map.empty,
          THEN conjunct2, THEN conjunct2, THEN conjunct2, THEN conjunct1] hyps
  have completes: "\<forall>sched. \<exists>n final.
      getOrderedDependencies exampleMissingTolerant exampleOptions Map.empty (map sched [0..<n])
        = Some (Inr final) \<and>
      responseClosed exampleMissingTolerant final"
    by blast
  have seq: "moduleSequence (getOrderedDependencies exampleMissingTolerant exampleOptions Map.empty [0, 0])
     = Some (Inr [Module ''/root/a.js'', Module ''/root/b.js''])"
    by code_simp
  have prs: "map_option (map_sum id (\<lambda>b. response_resolvedDependencyPairs b (Module ''/root/a.js'')))
     (getOrderedDependencies exampleMissingTolerant exampleOptions Map.empty [0, 0])
     = Some (Inr (Some [(''./b'', Module ''/root/b.js'')]))"
    by code_simp
  have fails: "collectEntry exampleMissing exampleOptions Map.empty [0] = Some (Inl ?err)"
    by (rule failed_projection) code_simp
  from unresolved_dependency_tolerated
         [where R = exampleMissing and opts = exampleOptions and ?cache0.0 = Map.empty
            and schedule = "[0]" and error = ?err,
          THEN conjunct2, THEN conjunct2, THEN conjunct2, THEN conjunct2, THEN conjunct2] fails
  have god: "getOrderedDependencies exampleMissing exampleOptions Map.empty [0] = Some (Inl ?err)"
    by blast
  from key asset pipe r1 r2 hyps completes seq prs fails god show ?thesis
    by blast
qed

end
